theory Spec2Isabelle
  imports Main
begin

section \<open>Errors and nodes\<close>

text \<open>
  Go error values. Package \<open>html\<close> and package \<open>util\<close> each create their own sentinels
  with \<open>errors.New\<close>, so \<open>html.ErrNotFound\<close> and \<open>util.ErrNotFound\<close> are different
  error values that print the same message. Every other error (a parse or an open
  failure) is opaque to the program: \<open>Upstream\<close> carries its message.
\<close>

datatype error =
    html_ErrNotFound
  | html_ErrMultiEntities
  | util_ErrNotFound
  | util_ErrMultiEntities
  | Upstream string

fun Error_msg :: "error \<Rightarrow> string" where
  "Error_msg html_ErrNotFound = ''entity not found''"
| "Error_msg html_ErrMultiEntities = ''too many entities found''"
| "Error_msg util_ErrNotFound = ''entity not found''"
| "Error_msg util_ErrMultiEntities = ''too many entities found''"
| "Error_msg (Upstream m) = m"

text \<open>
  \<open>Node = html.Node\<close> of \<open>golang.org/x/net/html\<close>: the fields the program reads
  (\<open>Type\<close>, \<open>Data\<close>, \<open>Attr\<close>) and the child list that \<open>FirstChild\<close>/\<open>NextSibling\<close>
  link together. Nodes are values here; a nil \<open>*Node\<close> is not modelled.
\<close>

datatype NodeType =
  ErrorNode | TextNode | DocumentNode | ElementNode | CommentNode | DoctypeNode | RawNode

record Attribute =
  Namespace :: string
  Key :: string
  Val :: string

datatype Node =
  Node (Node_Type: NodeType) (Node_Data: string) (Node_Attr: "Attribute list")
       (Node_Children: "Node list")

section \<open>Push iterators\<close>

text \<open>
  \<open>iter.Seq[T]\<close> is \<open>func(yield func(T) bool)\<close>. What a call of such a function does is
  recorded as a tree: it returns (\<open>Return\<close>), it panics (\<open>Panic\<close>), or it calls \<open>yield\<close>
  with an item and goes on according to the boolean that \<open>yield\<close> answered (\<open>Yield\<close>).
  Nothing forces a tree to return after the answer \<open>False\<close>, as nothing forces a Go
  function to. The same type, with a result other than \<open>unit\<close>, describes the body of a
  callback that calls an outer \<open>yield\<close> before it returns its own result.
  A tree is finite along every sequence of answers: the sequences modelled are the ones
  that come to an end whatever the consumer answers.
\<close>

datatype ('a, 'r) proc =
    Return 'r
  | Yield 'a "bool \<Rightarrow> ('a, 'r) proc"
  | Panic

type_synonym 'a Seq = "('a, unit) proc"

text \<open>Sequential composition: run \<open>m\<close>, then \<open>f\<close> on its result.\<close>

primrec bind :: "('a, 'r) proc \<Rightarrow> ('r \<Rightarrow> ('a, 'q) proc) \<Rightarrow> ('a, 'q) proc" where
  "bind (Return r) f = f r"
| "bind (Yield a k) f = Yield a (\<lambda>b. bind (k b) f)"
| "bind Panic f = Panic"

text \<open>The call \<open>yield(v)\<close> inside a callback body.\<close>

definition yield :: "'a \<Rightarrow> ('a, bool) proc" where
  "yield v = Yield v Return"

text \<open>
  \<open>seq(cb)\<close> where the callback \<open>cb\<close> is a closure: \<open>s\<close> holds the variables it captures
  and assigns, and its body may call the \<open>yield\<close> of the enclosing function.
\<close>

primrec call :: "('a, unit) proc \<Rightarrow> ('a \<Rightarrow> 's \<Rightarrow> ('u, bool \<times> 's) proc) \<Rightarrow> 's \<Rightarrow> ('u, 's) proc" where
  "call (Return u) cb s = Return s"
| "call (Yield a k) cb s = bind (cb a s) (\<lambda>(b, s'). call (k b) cb s')"
| "call Panic cb s = Panic"

text \<open>A \<open>Data\<close> field may be nil: calling it panics.\<close>

definition invoke :: "'a Seq option \<Rightarrow> ('a \<Rightarrow> 's \<Rightarrow> ('u, bool \<times> 's) proc) \<Rightarrow> 's \<Rightarrow> ('u, 's) proc" where
  "invoke f cb s = (case f of None \<Rightarrow> Panic | Some d \<Rightarrow> call d cb s)"

text \<open>A function literal \<open>func(yield ...) { body }\<close>: its local variables end with it.\<close>

definition func :: "('u, 's) proc \<Rightarrow> 'u Seq" where
  "func body = bind body (\<lambda>_. Return ())"

text \<open>
  \<open>seq(cb)\<close> at the top level, where the callback calls no \<open>yield\<close>: the final values of the
  captured variables, or \<open>None\<close> for a panic.
\<close>

primrec drive :: "('a, unit) proc \<Rightarrow> ('a \<Rightarrow> 's \<Rightarrow> bool \<times> 's) \<Rightarrow> 's \<Rightarrow> 's option" where
  "drive (Return u) cb s = Some s"
| "drive (Yield a k) cb s = (case cb a s of (b, s') \<Rightarrow> drive (k b) cb s')"
| "drive Panic cb s = None"

definition invoke_top :: "'a Seq option \<Rightarrow> ('a \<Rightarrow> 's \<Rightarrow> bool \<times> 's) \<Rightarrow> 's \<Rightarrow> 's option" where
  "invoke_top f cb s = (case f of None \<Rightarrow> None | Some d \<Rightarrow> drive d cb s)"

text \<open>The items with which the callback is called during \<open>seq(cb)\<close>, in order.\<close>

primrec items :: "('a, unit) proc \<Rightarrow> ('a \<Rightarrow> 's \<Rightarrow> bool \<times> 's) \<Rightarrow> 's \<Rightarrow> 'a list" where
  "items (Return u) cb s = []"
| "items (Yield a k) cb s = a # (case cb a s of (b, s') \<Rightarrow> items (k b) cb s')"
| "items Panic cb s = []"

text \<open>\<open>func nopIter[T any](yield func(T) bool) {}\<close>\<close>

definition nopIter :: "'a Seq" where
  "nopIter = Return ()"

text \<open>
  The loop \<open>for _, x := range xs { if !yield(x) { return } }\<close>: the sequence of \<section>4.1
  over the items \<open>xs\<close>.
\<close>

primrec from_list :: "'a list \<Rightarrow> 'a Seq" where
  "from_list [] = Return ()"
| "from_list (x # xs) = Yield x (\<lambda>b. if b then from_list xs else Return ())"

text \<open>
  A sequence keeps the contract of \<section>4.1 when, after the answer \<open>False\<close>, it returns
  at once.
\<close>

primrec stops_on_false :: "('a, 'r) proc \<Rightarrow> bool" where
  "stops_on_false (Return r) = True"
| "stops_on_false (Yield a k) =
     ((case k False of Return r \<Rightarrow> True | _ \<Rightarrow> False) \<and> stops_on_false (k True))"
| "stops_on_false Panic = True"

primrec never_panics :: "('a, 'r) proc \<Rightarrow> bool" where
  "never_panics (Return r) = True"
| "never_panics (Yield a k) = (never_panics (k True) \<and> never_panics (k False))"
| "never_panics Panic = False"

text \<open>\<open>slices.Collect(seq)\<close>: all the items, gathered by a consumer that never stops.\<close>

primrec Collect_seq :: "('a, 'r) proc \<Rightarrow> 'a list" where
  "Collect_seq (Return r) = []"
| "Collect_seq (Yield a k) = a # Collect_seq (k True)"
| "Collect_seq Panic = []"

text \<open>
  What \<section>4.1 lets a consumer see of the items \<open>xs\<close>: one call per item, in order, up to
  and including the first item at which it answers \<open>False\<close>.
\<close>

primrec consumed :: "'a list \<Rightarrow> ('a \<Rightarrow> 's \<Rightarrow> bool \<times> 's) \<Rightarrow> 's \<Rightarrow> 'a list" where
  "consumed [] cb s = []"
| "consumed (x # xs) cb s = x # (case cb x s of (b, s') \<Rightarrow> if b then consumed xs cb s' else [])"

text \<open>
  The items of \<open>xs\<close> pushed through a callback that reports in \<open>ok\<close> whether the consumer
  wants more: the result is the last value of \<open>ok\<close>.
\<close>

primrec emit :: "'a list \<Rightarrow> ('a, bool) proc" where
  "emit [] = Return True"
| "emit (x # xs) = Yield x (\<lambda>b. if b then emit xs else Return False)"

text \<open>
  A sequence that keeps the contract may still panic when it is driven on to its end:
  \<open>ends_in_panic\<close> tells whether it does, and \<open>from_list_end xs True\<close> is the sequence over
  \<open>xs\<close> that returns when told to stop and panics after the last item. \<open>emit_end\<close> is
  \<open>emit\<close> with the same end.
\<close>

primrec ends_in_panic :: "('a, 'r) proc \<Rightarrow> bool" where
  "ends_in_panic (Return r) = False"
| "ends_in_panic (Yield a k) = ends_in_panic (k True)"
| "ends_in_panic Panic = True"

primrec from_list_end :: "'a list \<Rightarrow> bool \<Rightarrow> 'a Seq" where
  "from_list_end [] pz = (if pz then Panic else Return ())"
| "from_list_end (x # xs) pz = Yield x (\<lambda>b. if b then from_list_end xs pz else Return ())"

primrec emit_end :: "'a list \<Rightarrow> bool \<Rightarrow> ('a, bool) proc" where
  "emit_end [] pz = (if pz then Panic else Return True)"
| "emit_end (x # xs) pz = Yield x (\<lambda>b. if b then emit_end xs pz else Return False)"

text \<open>Whether the consumer answers \<open>False\<close> at one of the items \<open>xs\<close>.\<close>

primrec stops_within :: "'a list \<Rightarrow> ('a \<Rightarrow> 's \<Rightarrow> bool \<times> 's) \<Rightarrow> 's \<Rightarrow> bool" where
  "stops_within [] cb s = False"
| "stops_within (x # xs) cb s = (case cb x s of (b, s') \<Rightarrow> \<not> b \<or> stops_within xs cb s')"

text \<open>The answers that the callback gives during \<open>seq(cb)\<close>, in order.\<close>

primrec answers :: "('a, unit) proc \<Rightarrow> ('a \<Rightarrow> 's \<Rightarrow> bool \<times> 's) \<Rightarrow> 's \<Rightarrow> bool list" where
  "answers (Return u) cb s = []"
| "answers (Yield a k) cb s = (case cb a s of (b, s') \<Rightarrow> b # answers (k b) cb s')"
| "answers Panic cb s = []"

text \<open>A property of every item a sequence can hand to a consumer, whatever the answers.\<close>

primrec all_yields :: "('a \<Rightarrow> bool) \<Rightarrow> ('a, 'r) proc \<Rightarrow> bool" where
  "all_yields P (Return r) = True"
| "all_yields P (Yield a k) = (P a \<and> all_yields P (k True) \<and> all_yields P (k False))"
| "all_yields P Panic = True"

subsection \<open>The node accessors of the HTML library\<close>

text \<open>
  Modelled from the spec: \<open>Node.ChildNodes\<close> and \<open>Node.Descendants\<close> belong to
  \<open>golang.org/x/net/html\<close>, which is not part of the sources. \<section>6 asks for the ordered list
  of direct children and a depth-first descendant traversal, each a sequence of \<section>4.1.
\<close>

definition ChildNodes :: "Node \<Rightarrow> Node Seq" where
  "ChildNodes n = from_list (Node_Children n)"

fun descendants_list :: "Node \<Rightarrow> Node list" where
  "descendants_list (Node t d a cs) = concat (map (\<lambda>c. c # descendants_list c) cs)"

definition Descendants :: "Node \<Rightarrow> Node Seq" where
  "Descendants n = from_list (descendants_list n)"

section \<open>Value sets and node sets\<close>

text \<open>
  \<open>Value = struct { X_0 string; X_1 error }\<close> and \<open>util.Value[T]\<close>, the same struct over
  \<open>T\<close>. \<open>NodeSet\<close>, \<open>ValueSet\<close> and \<open>util.ValueSet[T]\<close> are all a struct of a sequence
  \<open>Data\<close> and an error \<open>Err\<close>; either field may be nil.
\<close>

record 'a Value =
  X_0 :: 'a
  X_1 :: "error option"

record 'a SeqSet =
  Data :: "'a Seq option"
  Err :: "error option"

type_synonym NodeSet = "Node SeqSet"
type_synonym ValueSet = "string Value SeqSet"
type_synonym 't util_ValueSet = "'t Value SeqSet"

text \<open>
  A set is well formed when it is in the failed state, or its sequence is there, keeps
  the contract of \<section>4.1 and does not panic.
\<close>

definition keeps_contract :: "'a SeqSet \<Rightarrow> bool" where
  "keeps_contract p =
     (Err p \<noteq> None
      \<or> (case Data p of None \<Rightarrow> False | Some d \<Rightarrow> stops_on_false d \<and> never_panics d))"

text \<open>
  \<section>3 on a \<open>Result\<close>: a value and no error, or an error and the zero value. The only error
  an attribute projection sets is \<open>html.ErrNotFound\<close>.
\<close>

definition Value_ok :: "string Value \<Rightarrow> bool" where
  "Value_ok v = (X_1 v = None \<or> (X_1 v = Some html_ErrNotFound \<and> X_0 v = []))"

text \<open>
  \<section>4.3 on \<open>attribute(name)\<close>: the value of the first attribute of the node whose key is
  \<open>name\<close>, or the error \<open>NotFound\<close>.
\<close>

definition Attr_lookup :: "string \<Rightarrow> Node \<Rightarrow> string Value" where
  "Attr_lookup name node =
     (case find (\<lambda>attr. Key attr = name) (Node_Attr node) of
        Some attr \<Rightarrow> \<lparr>X_0 = Val attr, X_1 = None\<rparr>
      | None \<Rightarrow> \<lparr>X_0 = [], X_1 = Some html_ErrNotFound\<rparr>)"

text \<open>
  Two results of a reducer that differ at most in which package's sentinel reports
  \<open>NotFound\<close> or \<open>TooManyEntities\<close>: the first is of \<open>html\<close>, the second of \<open>util\<close>.
\<close>

definition same_but_sentinel :: "error option \<Rightarrow> error option \<Rightarrow> bool" where
  "same_but_sentinel e e' =
     (e = e'
      \<or> (e = Some html_ErrNotFound \<and> e' = Some util_ErrNotFound)
      \<or> (e = Some html_ErrMultiEntities \<and> e' = Some util_ErrMultiEntities))"

definition same_result :: "('t \<times> error option) option \<Rightarrow> ('t \<times> error option) option \<Rightarrow> bool" where
  "same_result r r' =
     (case (r, r') of
        (None, None) \<Rightarrow> True
      | (Some (v, e), Some (v', e')) \<Rightarrow> v = v' \<and> same_but_sentinel e e'
      | _ \<Rightarrow> False)"

subsection \<open>Reducers of \<open>html.ValueSet\<close>\<close>

definition ValueSet_XGo_Enum :: "ValueSet \<Rightarrow> string Value Seq option" where
  "ValueSet_XGo_Enum p = (if Err p \<noteq> None then Some nopIter else Data p)"

text \<open>The result is the pair \<open>(val, err)\<close>; \<open>None\<close> is a panic.\<close>

definition ValueSet_XGo_0_yield :: "string Value \<Rightarrow> string \<times> error option \<Rightarrow> bool \<times> string \<times> error option" where
  "ValueSet_XGo_0_yield v = (\<lambda>(val, err). (False, (X_0 v, X_1 v)))"

definition ValueSet_XGo_0 :: "ValueSet \<Rightarrow> (string \<times> error option) option" where
  "ValueSet_XGo_0 p =
     (if Err p \<noteq> None then Some ('''', Err p)
      else invoke_top (Data p) ValueSet_XGo_0_yield ('''', Some html_ErrNotFound))"

definition ValueSet_XGo_1_yield ::
  "string Value \<Rightarrow> bool \<times> string \<times> error option \<Rightarrow> bool \<times> bool \<times> string \<times> error option" where
  "ValueSet_XGo_1_yield v = (\<lambda>(first, val, err).
     if first then (True, (False, X_0 v, X_1 v))
     else (False, (first, val, Some html_ErrMultiEntities)))"

definition ValueSet_XGo_1 :: "ValueSet \<Rightarrow> (string \<times> error option) option" where
  "ValueSet_XGo_1 p =
     (if Err p \<noteq> None then Some ('''', Err p)
      else map_option snd
        (invoke_top (Data p) ValueSet_XGo_1_yield (True, '''', Some html_ErrNotFound)))"

subsection \<open>Reducers of \<open>util.ValueSet[T]\<close>\<close>

text \<open>The zero value of \<open>T\<close>, with which the named result \<open>val\<close> starts, is the argument \<open>zero\<close>.\<close>

definition util_XGo_Enum :: "'t util_ValueSet \<Rightarrow> 't Value Seq option" where
  "util_XGo_Enum p = (if Err p \<noteq> None then Some nopIter else Data p)"

definition util_XGo_0_yield :: "'t Value \<Rightarrow> 't \<times> error option \<Rightarrow> bool \<times> 't \<times> error option" where
  "util_XGo_0_yield v = (\<lambda>(val, err). (False, (X_0 v, X_1 v)))"

definition util_XGo_0 :: "'t \<Rightarrow> 't util_ValueSet \<Rightarrow> ('t \<times> error option) option" where
  "util_XGo_0 zero p =
     (if Err p \<noteq> None then Some (zero, Err p)
      else invoke_top (Data p) util_XGo_0_yield (zero, Some util_ErrNotFound))"

definition util_XGo_1_yield ::
  "'t Value \<Rightarrow> bool \<times> 't \<times> error option \<Rightarrow> bool \<times> bool \<times> 't \<times> error option" where
  "util_XGo_1_yield v = (\<lambda>(first, val, err).
     if first then (True, (False, X_0 v, X_1 v))
     else (False, (first, val, Some util_ErrMultiEntities)))"

definition util_XGo_1 :: "'t \<Rightarrow> 't util_ValueSet \<Rightarrow> ('t \<times> error option) option" where
  "util_XGo_1 zero p =
     (if Err p \<noteq> None then Some (zero, Err p)
      else map_option snd
        (invoke_top (Data p) util_XGo_1_yield (True, zero, Some util_ErrNotFound)))"

subsection \<open>Construction of a \<open>NodeSet\<close>\<close>

text \<open>
  \<open>html.Parse\<close> is the external parser and \<open>stream.Open\<close> the stream opener; both are
  parameters, over any type \<open>'r\<close> of readers. \<open>Parse\<close> answers a root node or an error.
  \<open>bytes.NewReader\<close> is the parameter \<open>NewReader\<close>. The deferred \<open>f.Close()\<close> has no
  effect on the result.
\<close>

definition New :: "('r \<Rightarrow> error + Node) \<Rightarrow> 'r \<Rightarrow> NodeSet" where
  "New Parse r =
     (case Parse r of
        Inl err \<Rightarrow> \<lparr>Data = None, Err = Some err\<rparr>
      | Inr doc \<Rightarrow> \<lparr>Data = Some (func (bind (yield doc) (\<lambda>_. Return ()))), Err = None\<rparr>)"

text \<open>The dynamic type of the argument \<open>r any\<close> of \<open>Source\<close>, in the order of its type switch.\<close>

datatype ('r, 'x) source =
    Src_string string
  | Src_bytes "nat list"
  | Src_Reader 'r
  | Src_Seq "Node Seq option"
  | Src_NodeSet NodeSet
  | Src_other 'x

text \<open>\<open>Inl\<close> is the panic with its message.\<close>

definition Source ::
  "(string \<Rightarrow> error + 'r) \<Rightarrow> (nat list \<Rightarrow> 'r) \<Rightarrow> ('r \<Rightarrow> error + Node) \<Rightarrow> ('r, 'x) source
     \<Rightarrow> string + NodeSet" where
  "Source Open NewReader Parse r =
     (case r of
        Src_string v \<Rightarrow>
          (case Open v of
             Inl err \<Rightarrow> Inr \<lparr>Data = None, Err = Some err\<rparr>
           | Inr f \<Rightarrow> Inr (New Parse f))
      | Src_bytes v \<Rightarrow> Inr (New Parse (NewReader v))
      | Src_Reader v \<Rightarrow> Inr (New Parse v)
      | Src_Seq v \<Rightarrow> Inr \<lparr>Data = v, Err = None\<rparr>
      | Src_NodeSet v \<Rightarrow> Inr v
      | Src_other x \<Rightarrow> Inl ''dql/html.Source: unsupport source type'')"

subsection \<open>Combinators of \<open>NodeSet\<close>\<close>

definition XGo_Enum :: "NodeSet \<Rightarrow> Node Seq option" where
  "XGo_Enum p = (if Err p \<noteq> None then Some nopIter else Data p)"

definition XGo_Node_yield :: "string \<Rightarrow> Node \<Rightarrow> unit \<Rightarrow> (Node, bool \<times> unit) proc" where
  "XGo_Node_yield name node u =
     (if Node_Type node = ElementNode \<and> Node_Data node = name
      then bind (yield node) (\<lambda>b. Return (b, u))
      else Return (True, u))"

definition XGo_Node :: "NodeSet \<Rightarrow> string \<Rightarrow> NodeSet" where
  "XGo_Node p name =
     (if Err p \<noteq> None then p
      else \<lparr>Data = Some (func (invoke (Data p) (XGo_Node_yield name) ())), Err = None\<rparr>)"

text \<open>In \<open>XGo_Child\<close> and \<open>XGo_Any\<close> the closures share the variable \<open>ok\<close>: it is their state.\<close>

definition ok_yield :: "Node \<Rightarrow> bool \<Rightarrow> (Node, bool \<times> bool) proc" where
  "ok_yield c ok = bind (yield c) (\<lambda>ok. Return (ok, ok))"

definition XGo_Child_yield :: "Node \<Rightarrow> bool \<Rightarrow> (Node, bool \<times> bool) proc" where
  "XGo_Child_yield node ok =
     bind (invoke (Some (ChildNodes node)) ok_yield ok) (\<lambda>ok. Return (ok, ok))"

definition XGo_Child :: "NodeSet \<Rightarrow> NodeSet" where
  "XGo_Child p =
     (if Err p \<noteq> None then p
      else \<lparr>Data = Some (func (invoke (Data p) XGo_Child_yield True)), Err = None\<rparr>)"

definition XGo_Any_yield :: "Node \<Rightarrow> bool \<Rightarrow> (Node, bool \<times> bool) proc" where
  "XGo_Any_yield node ok =
     bind (yield node) (\<lambda>ok.
       if ok then bind (invoke (Some (Descendants node)) ok_yield ok) (\<lambda>ok. Return (ok, ok))
       else Return (ok, ok))"

definition XGo_Any :: "NodeSet \<Rightarrow> NodeSet" where
  "XGo_Any p =
     (if Err p \<noteq> None then p
      else \<lparr>Data = Some (func (invoke (Data p) XGo_Any_yield True)), Err = None\<rparr>)"

text \<open>
  The loop over \<open>node.Attr\<close> returns at the first attribute whose key is \<open>name\<close>
  (\<open>find\<close>); after the loop the answer of \<open>yield\<close> is dropped and the callback returns
  \<open>true\<close>.
\<close>

definition XGo_Attr_yield :: "string \<Rightarrow> Node \<Rightarrow> unit \<Rightarrow> (string Value, bool \<times> unit) proc" where
  "XGo_Attr_yield name node u =
     (case find (\<lambda>attr. Key attr = name) (Node_Attr node) of
        Some attr \<Rightarrow> bind (yield \<lparr>X_0 = Val attr, X_1 = None\<rparr>) (\<lambda>b. Return (b, u))
      | None \<Rightarrow> bind (yield \<lparr>X_0 = '''', X_1 = Some html_ErrNotFound\<rparr>) (\<lambda>_. Return (True, u)))"

definition XGo_Attr :: "NodeSet \<Rightarrow> string \<Rightarrow> ValueSet" where
  "XGo_Attr p name =
     (if Err p \<noteq> None then \<lparr>Data = None, Err = Err p\<rparr>
      else \<lparr>Data = Some (func (invoke (Data p) (XGo_Attr_yield name) ())), Err = None\<rparr>)"

definition XGo_0_yield :: "Node \<Rightarrow> Node option \<times> error option \<Rightarrow> bool \<times> Node option \<times> error option" where
  "XGo_0_yield n = (\<lambda>(val, err). (False, (Some n, None)))"

definition XGo_0 :: "NodeSet \<Rightarrow> (Node option \<times> error option) option" where
  "XGo_0 p =
     (if Err p \<noteq> None then Some (None, Err p)
      else invoke_top (Data p) XGo_0_yield (None, Some html_ErrNotFound))"

definition XGo_1_yield ::
  "Node \<Rightarrow> bool \<times> Node option \<times> error option \<Rightarrow> bool \<times> bool \<times> Node option \<times> error option" where
  "XGo_1_yield n = (\<lambda>(first, val, err).
     if first then (True, (False, Some n, None))
     else (False, (first, val, Some html_ErrMultiEntities)))"

definition XGo_1 :: "NodeSet \<Rightarrow> (Node option \<times> error option) option" where
  "XGo_1 p =
     (if Err p \<noteq> None then Some (None, Err p)
      else map_option snd
        (invoke_top (Data p) XGo_1_yield (True, None, Some html_ErrNotFound)))"


subsection \<open>A small document\<close>

text \<open>
  \<open><p><a href="/x">link</a>t</p><img>\<close> under a document node, and three attribute
  values, for the concrete instances below.
\<close>

definition ex_text :: Node where
  "ex_text = Node TextNode ''link'' [] []"

definition ex_a :: Node where
  "ex_a = Node ElementNode ''a'' [\<lparr>Namespace = [], Key = ''href'', Val = ''/x''\<rparr>] [ex_text]"

definition ex_t :: Node where
  "ex_t = Node TextNode ''t'' [] []"

definition ex_p :: Node where
  "ex_p = Node ElementNode ''p'' [] [ex_a, ex_t]"

definition ex_img :: Node where
  "ex_img = Node ElementNode ''img'' [] []"

definition ex_doc :: Node where
  "ex_doc = Node DocumentNode [] [] [ex_p, ex_img]"

definition ex_dup :: Node where
  "ex_dup = Node ElementNode ''div''
     [\<lparr>Namespace = [], Key = ''class'', Val = ''a''\<rparr>,
      \<lparr>Namespace = [], Key = ''id'', Val = ''b''\<rparr>,
      \<lparr>Namespace = [], Key = ''id'', Val = ''c''\<rparr>] []"

definition ex_v1 :: "string Value" where
  "ex_v1 = \<lparr>X_0 = ''v'', X_1 = None\<rparr>"

definition ex_v2 :: "string Value" where
  "ex_v2 = \<lparr>X_0 = [], X_1 = Some html_ErrNotFound\<rparr>"

definition ex_v3 :: "string Value" where
  "ex_v3 = \<lparr>X_0 = ''w'', X_1 = None\<rparr>"

section \<open>Sequences that keep the contract\<close>

lemma bind_if: "bind (if c then m else n) f = (if c then bind m f else bind n f)"
  by simp

lemma bind_assoc: "bind (bind m f) g = bind m (\<lambda>x. bind (f x) g)"
  by (induction m) simp_all

lemma func_unit: "func (m :: ('a, unit) proc) = m"
  by (induction m) (simp_all add: func_def)

lemma call_from_list_Cons:
  "call (from_list (x # xs)) cb s =
     bind (cb x s) (\<lambda>(b, s'). if b then call (from_list xs) cb s' else Return s')"
  by (simp add: if_distrib [of "\<lambda>t. call t cb _"] cong: if_cong)

lemma stops_on_false_from_list: "stops_on_false (from_list xs)"
  by (induction xs) simp_all

lemma never_panics_from_list: "never_panics (from_list xs)"
  by (induction xs) simp_all

lemma Collect_from_list: "Collect_seq (from_list xs) = xs"
  by (induction xs) simp_all

lemma items_from_list: "items (from_list xs) cb s = consumed xs cb s"
  by (induction xs arbitrary: s) (auto split: prod.splits)

lemma drive_from_list_Cons:
  "drive (from_list (x # xs)) cb s =
     (case cb x s of (b, s') \<Rightarrow> if b then drive (from_list xs) cb s' else Some s')"
  by (auto split: prod.splits)

lemma lawful_from_list:
  fixes d :: "'a Seq"
  shows "stops_on_false d \<Longrightarrow> never_panics d \<Longrightarrow> d = from_list (Collect_seq d)"
proof (induction d)
  case (Return u) show ?case by simp
next
  case (Yield a k)
  have t: "k True = from_list (Collect_seq (k True))"
    using Yield by simp
  have f: "k False = Return ()"
    using Yield.prems(1) by (cases "k False") simp_all
  have "k = (\<lambda>b. if b then from_list (Collect_seq (k True)) else Return ())"
  proof
    fix b show "k b = (if b then from_list (Collect_seq (k True)) else Return ())"
      using t f by (cases b) simp_all
  qed
  then show ?case by simp
next
  case Panic then show ?case by simp
qed

lemma all_yields_bind:
  "all_yields P m \<Longrightarrow> (\<And>r. all_yields P (f r)) \<Longrightarrow> all_yields P (bind m f)"
  by (induction m) simp_all

lemma all_yields_items: "all_yields P t \<Longrightarrow> x \<in> set (items t cb s) \<Longrightarrow> P x"
proof (induction t arbitrary: s)
  case (Yield a k)
  obtain b s' where c: "cb a s = (b, s')" by (cases "cb a s")
  have ay: "all_yields P (k b)" using Yield.prems(1) by (cases b) simp_all
  from Yield.prems(2) c have "x = a \<or> x \<in> set (items (k b) cb s')" by simp
  then show ?case
  proof
    assume "x = a" then show ?thesis using Yield.prems(1) by simp
  next
    assume "x \<in> set (items (k b) cb s')"
    then show ?thesis using Yield.IH [of "k b" s'] ay by blast
  qed
qed simp_all

lemma XGo_Attr_yield_ok: "all_yields Value_ok (XGo_Attr_yield name node u)"
  by (simp add: XGo_Attr_yield_def yield_def Value_ok_def split: option.splits)

lemma call_Attr_ok: "all_yields Value_ok (call d (XGo_Attr_yield name) u)"
  by (induction d arbitrary: u) (auto intro!: all_yields_bind XGo_Attr_yield_ok)

lemma call_ok_yield: "call (from_list xs) ok_yield True = emit xs"
  by (induction xs) (simp_all add: ok_yield_def yield_def if_distrib [of "\<lambda>t. call t _ _"] cong: if_cong)

lemma emit_append:
  "emit (xs @ ys) = bind (emit xs) (\<lambda>ok. if ok then emit ys else Return False)"
  by (induction xs) (simp_all add: bind_if cong: if_cong)

lemma func_emit: "func (emit xs) = from_list xs"
  by (induction xs) (simp_all add: func_def bind_if cong: if_cong)

lemma XGo_Child_yield_emit:
  "XGo_Child_yield node True = bind (emit (Node_Children node)) (\<lambda>ok. Return (ok, ok))"
  by (simp add: XGo_Child_yield_def invoke_def ChildNodes_def call_ok_yield)

lemma XGo_Any_yield_emit:
  "XGo_Any_yield node True = bind (emit (node # descendants_list node)) (\<lambda>ok. Return (ok, ok))"
  by (simp add: XGo_Any_yield_def invoke_def Descendants_def call_ok_yield yield_def bind_if cong: if_cong)

lemma call_emit_step:
  assumes "cb x True = bind (emit ys) (\<lambda>ok. Return (ok, ok))"
      and "call (from_list xs) cb True = emit zs"
  shows "call (from_list (x # xs)) cb True = emit (ys @ zs)"
proof -
  have "call (from_list (x # xs)) cb True =
        bind (bind (emit ys) (\<lambda>ok. Return (ok, ok)))
          (\<lambda>(b, s'). if b then call (from_list xs) cb s' else Return s')"
    by (simp only: call_from_list_Cons assms(1))
  also have "\<dots> = bind (emit ys) (\<lambda>ok. if ok then call (from_list xs) cb ok else Return ok)"
    by (simp add: bind_assoc)
  also have "\<dots> = bind (emit ys) (\<lambda>ok. if ok then emit zs else Return False)"
    by (simp add: assms(2) cong: if_cong)
  also have "\<dots> = emit (ys @ zs)"
    by (simp only: emit_append)
  finally show ?thesis .
qed

lemma call_Child: "call (from_list xs) XGo_Child_yield True = emit (concat (map Node_Children xs))"
proof (induction xs)
  case Nil show ?case by simp
next
  case (Cons x xs)
  show ?case
    using call_emit_step [OF XGo_Child_yield_emit Cons] by simp
qed

lemma call_Any: "call (from_list xs) XGo_Any_yield True = emit (concat (map (\<lambda>n. n # descendants_list n) xs))"
proof (induction xs)
  case Nil show ?case by simp
next
  case (Cons x xs)
  show ?case
    using call_emit_step [OF XGo_Any_yield_emit Cons] by simp
qed

lemma call_Node: "call (from_list xs) (XGo_Node_yield name) () = from_list (filter (\<lambda>n. Node_Type n = ElementNode \<and> Node_Data n = name) xs)"
proof (induction xs)
  case Nil show ?case by simp
next
  case (Cons x xs)
  have "call (from_list (x # xs)) (XGo_Node_yield name) () =
     bind (XGo_Node_yield name x ()) (\<lambda>(b, s'). if b then call (from_list xs) (XGo_Node_yield name) s' else Return s')"
    by (simp only: call_from_list_Cons)
  also have "\<dots> = from_list (filter (\<lambda>n. Node_Type n = ElementNode \<and> Node_Data n = name) (x # xs))"
    by (simp add: XGo_Node_yield_def yield_def Cons cong: if_cong)
  finally show ?case .
qed

lemma items_lawful:
  fixes d :: "'a Seq"
  assumes "stops_on_false d" and "never_panics d"
  shows "items d cb s = consumed (Collect_seq d) cb s"
proof -
  have "d = from_list (Collect_seq d)" using assms by (rule lawful_from_list)
  then have "items d cb s = items (from_list (Collect_seq d)) cb s" by simp
  then show ?thesis by (simp only: items_from_list)
qed


section \<open>What the combinators build over a sequence that keeps the contract\<close>

lemma XGo_Node_Data:
  assumes "Err p = None" and "Data p = Some d" and "stops_on_false d" and "never_panics d"
  shows "Data (XGo_Node p name)
    = Some (from_list (filter (\<lambda>n. Node_Type n = ElementNode \<and> Node_Data n = name)
        (Collect_seq d)))"
proof -
  have d: "d = from_list (Collect_seq d)"
    using assms(3,4) by (rule lawful_from_list)
  have "func (invoke (Data p) (XGo_Node_yield name) ())
      = from_list (filter (\<lambda>n. Node_Type n = ElementNode \<and> Node_Data n = name) (Collect_seq d))"
    unfolding assms(2) invoke_def option.case func_unit
    by (subst d) (simp only: call_Node)
  then show ?thesis
    by (simp add: XGo_Node_def assms(1))
qed

lemma XGo_Child_Data:
  assumes "Err p = None" and "Data p = Some d" and "stops_on_false d" and "never_panics d"
  shows "Data (XGo_Child p) = Some (from_list (concat (map Node_Children (Collect_seq d))))"
proof -
  have d: "d = from_list (Collect_seq d)"
    using assms(3,4) by (rule lawful_from_list)
  have "func (invoke (Data p) XGo_Child_yield True)
      = from_list (concat (map Node_Children (Collect_seq d)))"
    unfolding assms(2) invoke_def option.case
    by (subst d) (simp only: call_Child func_emit)
  then show ?thesis
    by (simp add: XGo_Child_def assms(1))
qed

lemma XGo_Any_Data:
  assumes "Err p = None" and "Data p = Some d" and "stops_on_false d" and "never_panics d"
  shows "Data (XGo_Any p)
    = Some (from_list (concat (map (\<lambda>n. n # descendants_list n) (Collect_seq d))))"
proof -
  have d: "d = from_list (Collect_seq d)"
    using assms(3,4) by (rule lawful_from_list)
  have "func (invoke (Data p) XGo_Any_yield True)
      = from_list (concat (map (\<lambda>n. n # descendants_list n) (Collect_seq d)))"
    unfolding assms(2) invoke_def option.case
    by (subst d) (simp only: call_Any func_emit)
  then show ?thesis
    by (simp add: XGo_Any_def assms(1))
qed

text \<open>
  The node sets that \<open>New\<close> makes are well formed, and \<open>XGo_Node\<close>, \<open>XGo_Child\<close> and
  \<open>XGo_Any\<close> keep them so: the sets that a parse and these combinators build all satisfy
  the hypotheses of the theorems below.
\<close>

lemma New_keeps_contract: "keeps_contract (New Parse r)"
  by (cases "Parse r") (simp_all add: New_def keeps_contract_def func_def yield_def)

lemma keeps_contractE:
  assumes "keeps_contract p" and "Err p = None"
  obtains d where "Data p = Some d" and "stops_on_false d" and "never_panics d"
  using assms by (auto simp add: keeps_contract_def split: option.splits)

lemma XGo_Node_keeps_contract:
  assumes "keeps_contract p"
  shows "keeps_contract (XGo_Node p name)"
proof (cases "Err p")
  case (Some e) then show ?thesis using assms by (simp add: XGo_Node_def)
next
  case None
  with assms obtain d where d: "Data p = Some d" "stops_on_false d" "never_panics d"
    by (rule keeps_contractE)
  show ?thesis
    using XGo_Node_Data [OF None d, of name]
    by (simp add: keeps_contract_def stops_on_false_from_list never_panics_from_list
        del: from_list.simps)
qed

lemma XGo_Child_keeps_contract:
  assumes "keeps_contract p"
  shows "keeps_contract (XGo_Child p)"
proof (cases "Err p")
  case (Some e) then show ?thesis using assms by (simp add: XGo_Child_def)
next
  case None
  with assms obtain d where d: "Data p = Some d" "stops_on_false d" "never_panics d"
    by (rule keeps_contractE)
  show ?thesis
    using XGo_Child_Data [OF None d]
    by (simp add: keeps_contract_def stops_on_false_from_list never_panics_from_list
        del: from_list.simps)
qed

lemma XGo_Any_keeps_contract:
  assumes "keeps_contract p"
  shows "keeps_contract (XGo_Any p)"
proof (cases "Err p")
  case (Some e) then show ?thesis using assms by (simp add: XGo_Any_def)
next
  case None
  with assms obtain d where d: "Data p = Some d" "stops_on_false d" "never_panics d"
    by (rule keeps_contractE)
  show ?thesis
    using XGo_Any_Data [OF None d]
    by (simp add: keeps_contract_def stops_on_false_from_list never_panics_from_list
        del: from_list.simps)
qed

section \<open>The navigation combinators\<close>

text \<open>
  C7. For a \<open>NodeSet\<close> in the ok state whose sequence keeps the contract of \<section>4.1,
  \<open>XGo_Child\<close> is in the ok state and its sequence is the sequence, again keeping the
  contract, of the direct children of the receiver's nodes, concatenated in receiver
  order. Whatever the consumer, it is called with these children in order up to and
  including the first at which it answers stop, and with nothing after that one: no
  further child of the current node and no child of a later node.
\<close>

theorem XGo_Child_children:
  assumes "Err p = None" and "Data p = Some d" and "stops_on_false d" and "never_panics d"
  shows "Err (XGo_Child p) = None
    \<and> Data (XGo_Child p) = Some (from_list (concat (map Node_Children (Collect_seq d))))
    \<and> stops_on_false (the (Data (XGo_Child p)))
    \<and> items (the (Data (XGo_Child p))) cb s
          = consumed (concat (map Node_Children (Collect_seq d))) cb s"
  using XGo_Child_Data [OF assms]
  by (simp add: XGo_Child_def assms(1) items_from_list stops_on_false_from_list
      del: from_list.simps)

theorem XGo_Child_children_witness:
  "stops_on_false (from_list [ex_p, ex_img, ex_a]) \<and> never_panics (from_list [ex_p, ex_img, ex_a])
   \<and> Data (XGo_Child \<lparr>Data = Some (from_list [ex_p, ex_img, ex_a]), Err = None\<rparr>)
        = Some (from_list [ex_a, ex_t, ex_text])
   \<and> items (the (Data (XGo_Child \<lparr>Data = Some (from_list [ex_p, ex_img, ex_a]), Err = None\<rparr>)))
        (\<lambda>c n. (n < 1, Suc n)) (0 :: nat) = [ex_a, ex_t]"
proof -
  let ?d = "from_list [ex_p, ex_img, ex_a]"
  let ?p = "\<lparr>Data = Some ?d, Err = None\<rparr>"
  have h1: "stops_on_false ?d" by simp
  have h2: "never_panics ?d" by simp
  have e: "Err ?p = None" and d: "Data ?p = Some ?d" by simp_all
  have n1: "Node_Children ex_p = [ex_a, ex_t]" by (simp add: ex_p_def)
  have n2: "Node_Children ex_img = []" by (simp add: ex_img_def)
  have n3: "Node_Children ex_a = [ex_text]" by (simp add: ex_a_def)
  have c: "concat (map Node_Children (Collect_seq ?d)) = [ex_a, ex_t, ex_text]"
    by (simp add: Collect_from_list n1 n2 n3 del: from_list.simps)
  note t = XGo_Child_children [OF e d h1 h2, unfolded c, of "\<lambda>c n. (n < 1, Suc n)" "0 :: nat"]
  have i: "consumed [ex_a, ex_t, ex_text] (\<lambda>c n. (n < 1, Suc n)) (0 :: nat) = [ex_a, ex_t]"
    by simp
  from t have "Data (XGo_Child ?p) = Some (from_list [ex_a, ex_t, ex_text])"
    by (elim conjE)
  moreover from t have "items (the (Data (XGo_Child ?p))) (\<lambda>c n. (n < 1, Suc n)) (0 :: nat)
      = consumed [ex_a, ex_t, ex_text] (\<lambda>c n. (n < 1, Suc n)) (0 :: nat)"
    by (elim conjE)
  then have "items (the (Data (XGo_Child ?p))) (\<lambda>c n. (n < 1, Suc n)) (0 :: nat)
      = [ex_a, ex_t]"
    by (simp only: i)
  ultimately show ?thesis using h1 h2 by (intro conjI)
qed

lemma from_list_end_False: "from_list_end xs False = from_list xs"
  by (induction xs) (simp_all cong: if_cong)

lemma stops_on_false_from_list_end: "stops_on_false (from_list_end xs pz)"
  by (induction xs) simp_all

lemma items_from_list_end: "items (from_list_end xs pz) cb s = consumed xs cb s"
  by (induction xs arbitrary: s) (auto split: prod.splits)

lemma drive_from_list_end_stops:
  "stops_within xs cb s \<Longrightarrow> drive (from_list_end xs pz) cb s \<noteq> None"
  by (induction xs arbitrary: s) (auto split: prod.splits)

lemma never_panics_ends:
  "stops_on_false d \<Longrightarrow> never_panics d = (\<not> ends_in_panic d)"
proof (induction d)
  case (Yield a k)
  have "never_panics (k False)" using Yield.prems by (cases "k False") simp_all
  moreover have "never_panics (k True) = (\<not> ends_in_panic (k True))"
    using Yield by simp
  ultimately show ?case by simp
qed simp_all

lemma contract_shape:
  fixes d :: "'a Seq"
  shows "stops_on_false d \<Longrightarrow> d = from_list_end (Collect_seq d) (ends_in_panic d)"
proof (induction d)
  case (Return u) show ?case by simp
next
  case (Yield a k)
  have t: "k True = from_list_end (Collect_seq (k True)) (ends_in_panic (k True))"
    using Yield by simp
  have f: "k False = Return ()"
    using Yield.prems by (cases "k False") simp_all
  have "k = (\<lambda>b. if b then from_list_end (Collect_seq (k True)) (ends_in_panic (k True))
      else Return ())"
  proof
    fix b
    show "k b = (if b then from_list_end (Collect_seq (k True)) (ends_in_panic (k True))
        else Return ())"
      using t f by (cases b) simp_all
  qed
  then show ?case by simp
next
  case Panic show ?case by simp
qed

lemma call_from_list_end_Cons:
  "call (from_list_end (x # xs) pz) cb s =
     bind (cb x s) (\<lambda>(b, s'). if b then call (from_list_end xs pz) cb s' else Return s')"
  by (simp add: if_distrib [of "\<lambda>t. call t cb _"] cong: if_cong)

lemma emit_end_append:
  "emit_end (xs @ ys) pz = bind (emit xs) (\<lambda>ok. if ok then emit_end ys pz else Return False)"
  by (induction xs) (simp_all add: bind_if cong: if_cong)

lemma func_emit_end: "func (emit_end xs pz) = from_list_end xs pz"
  by (induction xs) (simp_all add: func_def bind_if cong: if_cong)

lemma call_end_step:
  assumes "cb x True = bind (emit ys) (\<lambda>ok. Return (ok, ok))"
      and "call (from_list_end xs pz) cb True = emit_end zs pz"
  shows "call (from_list_end (x # xs) pz) cb True = emit_end (ys @ zs) pz"
proof -
  have "call (from_list_end (x # xs) pz) cb True =
        bind (bind (emit ys) (\<lambda>ok. Return (ok, ok)))
          (\<lambda>(b, s'). if b then call (from_list_end xs pz) cb s' else Return s')"
    by (simp only: call_from_list_end_Cons assms(1))
  also have "\<dots> = bind (emit ys)
      (\<lambda>ok. if ok then call (from_list_end xs pz) cb ok else Return ok)"
    by (simp add: bind_assoc)
  also have "\<dots> = bind (emit ys) (\<lambda>ok. if ok then emit_end zs pz else Return False)"
    by (simp add: assms(2) cong: if_cong)
  also have "\<dots> = emit_end (ys @ zs) pz"
    by (simp only: emit_end_append)
  finally show ?thesis .
qed

lemma call_Any_end:
  "call (from_list_end xs pz) XGo_Any_yield True
     = emit_end (concat (map (\<lambda>n. n # descendants_list n) xs)) pz"
proof (induction xs)
  case Nil show ?case by simp
next
  case (Cons x xs)
  show ?case
    using call_end_step [OF XGo_Any_yield_emit Cons] by simp
qed

lemma call_ok_yield_end: "call (from_list_end xs pz) ok_yield True = emit_end xs pz"
  by (induction xs)
    (simp_all add: ok_yield_def yield_def if_distrib [of "\<lambda>t. call t _ _"] cong: if_cong)

lemma ok_yield_passes_stop:
  fixes t :: "Node Seq"
  assumes "stops_on_false t"
  shows "call t ok_yield True = emit_end (Collect_seq t) (ends_in_panic t)"
proof -
  have "t = from_list_end (Collect_seq t) (ends_in_panic t)"
    using assms by (rule contract_shape)
  then have "call t ok_yield True
      = call (from_list_end (Collect_seq t) (ends_in_panic t)) ok_yield True"
    by simp
  then show ?thesis by (simp only: call_ok_yield_end)
qed

text \<open>
  C6. For a \<open>NodeSet\<close> in the ok state whose sequence keeps the contract of \<section>4.1,
  whether or not that sequence would panic on being driven to its end, \<open>XGo_Any\<close> is in
  the ok state and its sequence is the sequence, again keeping the contract, of each
  receiver node followed by its descendants in depth-first document order, one receiver
  node after the other: every node once, none left out. Whatever the consumer, it is
  called with these nodes in order up to and including the first at which it answers
  stop, and with nothing after that one, neither a descendant nor a later receiver node.
  The stop goes through to the receiver's own loop: the built sequence panics only where
  the receiver does after its last node, so once the consumer has answered stop the
  receiver is not driven any further and nothing panics. The callback handed to the
  descendant loop passes the stop on in the same way to whatever contract-keeping
  sequence it is run by.
\<close>

theorem XGo_Any_descendants:
  assumes "Err p = None" and "Data p = Some d" and "stops_on_false d"
  shows "Err (XGo_Any p) = None
    \<and> Data (XGo_Any p)
        = Some (from_list_end (concat (map (\<lambda>n. n # descendants_list n) (Collect_seq d)))
            (ends_in_panic d))
    \<and> (never_panics d \<longrightarrow> Data (XGo_Any p)
        = Some (from_list (concat (map (\<lambda>n. n # descendants_list n) (Collect_seq d)))))
    \<and> stops_on_false (the (Data (XGo_Any p)))
    \<and> items (the (Data (XGo_Any p))) cb s
          = consumed (concat (map (\<lambda>n. n # descendants_list n) (Collect_seq d))) cb s
    \<and> (stops_within (concat (map (\<lambda>n. n # descendants_list n) (Collect_seq d))) cb s
          \<longrightarrow> drive (the (Data (XGo_Any p))) cb s \<noteq> None)
    \<and> (stops_on_false t
          \<longrightarrow> call t ok_yield True = emit_end (Collect_seq t) (ends_in_panic t))"
proof -
  let ?zs = "concat (map (\<lambda>n. n # descendants_list n) (Collect_seq d))"
  have d: "d = from_list_end (Collect_seq d) (ends_in_panic d)"
    using assms(3) by (rule contract_shape)
  have "func (invoke (Data p) XGo_Any_yield True) = from_list_end ?zs (ends_in_panic d)"
    unfolding assms(2) invoke_def option.case
    by (subst d) (simp only: call_Any_end func_emit_end)
  then have D: "Data (XGo_Any p) = Some (from_list_end ?zs (ends_in_panic d))"
    by (simp add: XGo_Any_def assms(1))
  have E: "Err (XGo_Any p) = None"
    by (simp add: XGo_Any_def assms(1))
  have N: "never_panics d \<longrightarrow> Data (XGo_Any p) = Some (from_list ?zs)"
    using D never_panics_ends [OF assms(3)] by (simp add: from_list_end_False)
  show ?thesis
    using E D N
    by (simp add: stops_on_false_from_list_end items_from_list_end drive_from_list_end_stops
        ok_yield_passes_stop del: from_list_end.simps)
qed

theorem XGo_Any_descendants_witness:
  "stops_on_false (from_list [ex_doc, ex_img]) \<and> never_panics (from_list [ex_doc, ex_img])
   \<and> Data (XGo_Any \<lparr>Data = Some (from_list [ex_doc, ex_img]), Err = None\<rparr>)
        = Some (from_list [ex_doc, ex_p, ex_a, ex_text, ex_t, ex_img, ex_img])
   \<and> items (the (Data (XGo_Any \<lparr>Data = Some (from_list [ex_doc, ex_img]), Err = None\<rparr>)))
        (\<lambda>c n. (n < 2, Suc n)) (0 :: nat) = [ex_doc, ex_p, ex_a]
   \<and> stops_on_false (Yield ex_img (\<lambda>b. if b then Panic else Return ()))
   \<and> stops_within [ex_img] (\<lambda>c n. (False, Suc n)) (0 :: nat)
   \<and> drive (the (Data (XGo_Any
          \<lparr>Data = Some (Yield ex_img (\<lambda>b. if b then Panic else Return ())), Err = None\<rparr>)))
        (\<lambda>c n. (False, Suc n)) (0 :: nat) = Some 1
   \<and> drive (the (Data (XGo_Any
          \<lparr>Data = Some (Yield ex_img (\<lambda>b. if b then Panic else Return ())), Err = None\<rparr>)))
        (\<lambda>c n. (True, Suc n)) (0 :: nat) = None"
proof -
  let ?d = "from_list [ex_doc, ex_img]"
  let ?p = "\<lparr>Data = Some ?d, Err = None\<rparr>"
  have h1: "stops_on_false ?d" by simp
  have h2: "never_panics ?d" by simp
  have e: "Err ?p = None" and d: "Data ?p = Some ?d" by simp_all
  have d1: "descendants_list ex_img = []" by (simp add: ex_img_def)
  have d2: "descendants_list ex_text = []" by (simp add: ex_text_def)
  have d3: "descendants_list ex_t = []" by (simp add: ex_t_def)
  have d4: "descendants_list ex_a = [ex_text]" by (simp add: ex_a_def d2)
  have d5: "descendants_list ex_p = [ex_a, ex_text, ex_t]" by (simp add: ex_p_def d3 d4)
  have d6: "descendants_list ex_doc = [ex_p, ex_a, ex_text, ex_t, ex_img]"
    by (simp add: ex_doc_def d1 d5)
  have c: "concat (map (\<lambda>n. n # descendants_list n) (Collect_seq ?d))
      = [ex_doc, ex_p, ex_a, ex_text, ex_t, ex_img, ex_img]"
    by (simp add: Collect_from_list d1 d6 del: from_list.simps)
  note t = XGo_Any_descendants [OF e d h1, unfolded c, of "\<lambda>c n. (n < 2, Suc n)" "0 :: nat"
      "Descendants ex_doc"]
  have i: "consumed [ex_doc, ex_p, ex_a, ex_text, ex_t, ex_img, ex_img]
      (\<lambda>c n. (n < 2, Suc n)) (0 :: nat) = [ex_doc, ex_p, ex_a]"
    by simp
  from t h2 have 1: "Data (XGo_Any ?p)
      = Some (from_list [ex_doc, ex_p, ex_a, ex_text, ex_t, ex_img, ex_img])"
    by (elim conjE) (erule mp)
  from t have "items (the (Data (XGo_Any ?p))) (\<lambda>c n. (n < 2, Suc n)) (0 :: nat)
      = consumed [ex_doc, ex_p, ex_a, ex_text, ex_t, ex_img, ex_img]
          (\<lambda>c n. (n < 2, Suc n)) (0 :: nat)"
    by (elim conjE)
  then have 2: "items (the (Data (XGo_Any ?p))) (\<lambda>c n. (n < 2, Suc n)) (0 :: nat)
      = [ex_doc, ex_p, ex_a]"
    by (simp only: i)
  let ?dz = "Yield ex_img (\<lambda>b. if b then Panic else Return ()) :: Node Seq"
  let ?pz = "\<lparr>Data = Some ?dz, Err = None\<rparr>"
  have z1: "stops_on_false ?dz" by simp
  have ez: "Err ?pz = None" and dz: "Data ?pz = Some ?dz" by simp_all
  have cz: "concat (map (\<lambda>n. n # descendants_list n) (Collect_seq ?dz)) = [ex_img]"
    by (simp add: d1)
  have pz: "ends_in_panic ?dz" by simp
  note u = XGo_Any_descendants [OF ez dz z1, unfolded cz, of "\<lambda>c n. (False, Suc n)" "0 :: nat"
      "Descendants ex_doc"]
  have sw: "stops_within [ex_img] (\<lambda>c n. (False, Suc n)) (0 :: nat)" by simp
  from u have D: "Data (XGo_Any ?pz) = Some (from_list_end [ex_img] (ends_in_panic ?dz))"
    by (elim conjE)
  have 3: "drive (the (Data (XGo_Any ?pz))) (\<lambda>c n. (False, Suc n)) (0 :: nat) = Some 1"
    unfolding D by (simp add: pz)
  have 4: "drive (the (Data (XGo_Any ?pz))) (\<lambda>c n. (True, Suc n)) (0 :: nat) = None"
    unfolding D by (simp add: pz)
  from h1 h2 1 2 z1 sw 3 4 show ?thesis by (intro conjI)
qed

text \<open>
  C1. On a \<open>NodeSet\<close> in the failed state, \<open>XGo_Node\<close>, \<open>XGo_Child\<close> and \<open>XGo_Any\<close>
  return the receiver itself and \<open>XGo_Attr\<close> returns a \<open>ValueSet\<close> with no sequence:
  each result is in the failed state with the receiver's error. The receiver's sequence
  is never called: whatever stands in its \<open>Data\<close> field, also nil or a sequence that
  panics when called, enumerating the result gives \<open>nopIter\<close> and reducing it gives the
  error, without a panic.
\<close>

theorem failed_state_passes_through:
  assumes "Err p = Some e"
  shows "XGo_Node p name = p \<and> XGo_Child p = p \<and> XGo_Any p = p
    \<and> XGo_Attr p name = \<lparr>Data = None, Err = Some e\<rparr>
    \<and> Err (XGo_Node p name) = Some e \<and> Err (XGo_Child p) = Some e
    \<and> Err (XGo_Any p) = Some e \<and> Err (XGo_Attr p name) = Some e
    \<and> XGo_Enum (XGo_Node (p\<lparr>Data := dd\<rparr>) name) = Some nopIter
    \<and> XGo_0 (XGo_Child (p\<lparr>Data := dd\<rparr>)) = Some (None, Some e)
    \<and> XGo_1 (XGo_Any (p\<lparr>Data := dd\<rparr>)) = Some (None, Some e)
    \<and> ValueSet_XGo_Enum (XGo_Attr (p\<lparr>Data := dd\<rparr>) name) = Some nopIter
    \<and> ValueSet_XGo_0 (XGo_Attr (p\<lparr>Data := dd\<rparr>) name) = Some ([], Some e)
    \<and> ValueSet_XGo_1 (XGo_Attr (p\<lparr>Data := dd\<rparr>) name) = Some ([], Some e)"
  using assms
  by (simp add: XGo_Node_def XGo_Child_def XGo_Any_def XGo_Attr_def XGo_Enum_def XGo_0_def
      XGo_1_def ValueSet_XGo_Enum_def ValueSet_XGo_0_def ValueSet_XGo_1_def)

theorem failed_state_passes_through_witness:
  "XGo_Node \<lparr>Data = Some Panic, Err = Some (Upstream ''eof'')\<rparr> ''a''
      = \<lparr>Data = Some Panic, Err = Some (Upstream ''eof'')\<rparr>
   \<and> XGo_Attr \<lparr>Data = Some Panic, Err = Some (Upstream ''eof'')\<rparr> ''a''
      = \<lparr>Data = None, Err = Some (Upstream ''eof'')\<rparr>
   \<and> XGo_0 (XGo_Child \<lparr>Data = Some Panic, Err = Some (Upstream ''eof'')\<rparr>)
      = Some (None, Some (Upstream ''eof''))
   \<and> ValueSet_XGo_1 (XGo_Attr \<lparr>Data = Some Panic, Err = Some (Upstream ''eof'')\<rparr> ''a'')
      = Some ([], Some (Upstream ''eof''))"
proof -
  have h: "Err \<lparr>Data = Some (Panic :: Node Seq), Err = Some (Upstream ''eof'')\<rparr> = Some (Upstream ''eof'')"
    by simp
  show ?thesis
    using failed_state_passes_through [OF h, of "''a''" "Some Panic"]
    by (simp add: XGo_0_def ValueSet_XGo_1_def)
qed

section \<open>Attribute projection\<close>

text \<open>
  C9. Every \<open>Value\<close> that a sequence built by \<open>XGo_Attr\<close> hands to a consumer, whatever
  the receiver's sequence does and whatever the consumer answers, has either no error, or
  the error \<open>html.ErrNotFound\<close> and the empty string as its value.
\<close>

theorem XGo_Attr_values_ok:
  assumes "Data (XGo_Attr p name) = Some t"
  shows "all_yields Value_ok t \<and> (\<forall>v \<in> set (items t cb s). Value_ok v)"
proof -
  have "all_yields Value_ok (invoke (Data p) (XGo_Attr_yield name) ())"
    by (cases "Data p") (simp_all add: invoke_def call_Attr_ok)
  then have "all_yields Value_ok (func (invoke (Data p) (XGo_Attr_yield name) ()))"
    unfolding func_def by (rule all_yields_bind) simp
  moreover have "t = func (invoke (Data p) (XGo_Attr_yield name) ())"
    using assms by (simp add: XGo_Attr_def split: if_splits)
  ultimately have "all_yields Value_ok t" by simp
  then show ?thesis using all_yields_items [of Value_ok t _ cb s] by auto
qed

theorem XGo_Attr_values_ok_witness:
  "Data (XGo_Attr \<lparr>Data = Some (from_list [ex_img, ex_a]), Err = None\<rparr> ''href'')
     = Some (func (invoke (Some (from_list [ex_img, ex_a])) (XGo_Attr_yield ''href'') ()))
   \<and> items (func (invoke (Some (from_list [ex_img, ex_a])) (XGo_Attr_yield ''href'') ()))
       (\<lambda>v u. (True, u)) () = [ex_v2, \<lparr>X_0 = ''/x'', X_1 = None\<rparr>]
   \<and> Value_ok ex_v2 \<and> Value_ok \<lparr>X_0 = ''/x'', X_1 = None\<rparr>"
proof -
  let ?t = "func (invoke (Some (from_list [ex_img, ex_a])) (XGo_Attr_yield ''href'') ())"
  have h: "Data (XGo_Attr \<lparr>Data = Some (from_list [ex_img, ex_a]), Err = None\<rparr> ''href'')
      = Some ?t"
    by (simp add: XGo_Attr_def)
  have i: "items ?t (\<lambda>v u. (True, u)) () = [ex_v2, \<lparr>X_0 = ''/x'', X_1 = None\<rparr>]"
    by (simp add: invoke_def func_def XGo_Attr_yield_def yield_def ex_img_def ex_a_def ex_v2_def)
  from XGo_Attr_values_ok [OF h, of "\<lambda>v u. (True, u)" "()"]
  have "\<forall>v \<in> set [ex_v2, \<lparr>X_0 = ''/x'', X_1 = None\<rparr>]. Value_ok v"
    unfolding i by (rule conjunct2)
  then show ?thesis using h i by simp
qed

lemma XGo_Attr_yield_eq:
  "XGo_Attr_yield name node u =
     Yield (Attr_lookup name node)
       (\<lambda>b. Return (b \<or> find (\<lambda>attr. Key attr = name) (Node_Attr node) = None, u))"
  by (simp add: XGo_Attr_yield_def Attr_lookup_def yield_def split: option.splits)

lemma call_Attr_Cons:
  "call (from_list (x # xs)) (XGo_Attr_yield name) () =
     Yield (Attr_lookup name x)
       (\<lambda>b. if b \<or> find (\<lambda>attr. Key attr = name) (Node_Attr x) = None
            then call (from_list xs) (XGo_Attr_yield name) () else Return ())"
  by (simp only: call_from_list_Cons XGo_Attr_yield_eq [of name x] bind.simps prod.case)

lemma Collect_call_Attr:
  "Collect_seq (call (from_list xs) (XGo_Attr_yield name) ()) = map (Attr_lookup name) xs"
proof (induction xs)
  case Nil show ?case by simp
next
  case (Cons x xs)
  show ?case unfolding call_Attr_Cons by (simp add: Cons)
qed

lemma items_call_Attr:
  "items (call (from_list xs) (XGo_Attr_yield name) ()) cb s
     = map (Attr_lookup name)
         (take (length (items (call (from_list xs) (XGo_Attr_yield name) ()) cb s)) xs)"
proof (induction xs arbitrary: s)
  case Nil show ?case by simp
next
  case (Cons x xs)
  obtain b s' where c: "cb (Attr_lookup name x) s = (b, s')" by (cases "cb (Attr_lookup name x) s")
  show ?case
    unfolding call_Attr_Cons using Cons [of s'] by (simp add: c)
qed

text \<open>
  C5. For a \<open>NodeSet\<close> in the ok state whose sequence keeps the contract of \<section>4.1,
  \<open>XGo_Attr\<close> is in the ok state and its sequence produces, for the nodes of the receiver
  in order, one \<open>Value\<close> each: the value of the first attribute of the node with the given
  key, or the error \<open>ErrNotFound\<close>. Enumerated to the end it gives exactly these values,
  one per node; whatever the consumer answers, the values it is called with are those of
  the first nodes of the receiver, in order and with no node skipped.
\<close>

theorem XGo_Attr_one_per_node:
  assumes "Err p = None" and "Data p = Some d" and "stops_on_false d" and "never_panics d"
  shows "Err (XGo_Attr p name) = None
    \<and> Collect_seq (the (Data (XGo_Attr p name))) = map (Attr_lookup name) (Collect_seq d)
    \<and> items (the (Data (XGo_Attr p name))) cb s
        = map (Attr_lookup name)
            (take (length (items (the (Data (XGo_Attr p name))) cb s)) (Collect_seq d))"
proof -
  have d: "d = from_list (Collect_seq d)"
    using assms(3,4) by (rule lawful_from_list)
  have t: "the (Data (XGo_Attr p name)) = call (from_list (Collect_seq d)) (XGo_Attr_yield name) ()"
    using d by (simp add: XGo_Attr_def assms(1,2) invoke_def func_unit)
  show ?thesis
    unfolding t using items_call_Attr [of "Collect_seq d" name cb s]
    by (simp add: Collect_call_Attr XGo_Attr_def assms(1))
qed

theorem XGo_Attr_one_per_node_witness:
  "stops_on_false (from_list [ex_img, ex_dup, ex_a]) \<and> never_panics (from_list [ex_img, ex_dup, ex_a])
   \<and> Collect_seq (the (Data (XGo_Attr \<lparr>Data = Some (from_list [ex_img, ex_dup, ex_a]), Err = None\<rparr>
        ''id'')))
      = [ex_v2, \<lparr>X_0 = ''b'', X_1 = None\<rparr>, ex_v2]"
proof -
  let ?d = "from_list [ex_img, ex_dup, ex_a]"
  let ?p = "\<lparr>Data = Some ?d, Err = None\<rparr>"
  have h1: "stops_on_false ?d" by simp
  have h2: "never_panics ?d" by simp
  have e: "Err ?p = None" and d: "Data ?p = Some ?d" by simp_all
  have m: "map (Attr_lookup ''id'') (Collect_seq ?d) = [ex_v2, \<lparr>X_0 = ''b'', X_1 = None\<rparr>, ex_v2]"
    by (simp add: Attr_lookup_def ex_img_def ex_dup_def ex_a_def ex_v2_def)
  note t = XGo_Attr_one_per_node [OF e d h1 h2, of "''id''", unfolded m]
  have "Collect_seq (the (Data (XGo_Attr ?p ''id''))) = [ex_v2, \<lparr>X_0 = ''b'', X_1 = None\<rparr>, ex_v2]"
    by (rule t [THEN conjunct2, THEN conjunct1])
  then show ?thesis using h1 h2 by (intro conjI)
qed

text \<open>
  C2. The sequence that \<open>XGo_Attr\<close> builds does not stop at the first answer \<open>False\<close>:
  over the two nodes \<open><img>\<close> and \<open><p>\<close>, neither with an attribute \<open>href\<close>, a consumer
  that answers \<open>False\<close> at once is called a second time, for the second node. After the
  loop over the attributes the callback drops the answer of \<open>yield\<close> and returns \<open>true\<close>,
  where the branch for a found attribute returns that answer.
\<close>

theorem XGo_Attr_calls_after_stop:
  "items (the (Data (XGo_Attr \<lparr>Data = Some (from_list [ex_img, ex_p]), Err = None\<rparr> ''href'')))
     (\<lambda>v n. (False, Suc n)) (0 :: nat) = [ex_v2, ex_v2]
   \<and> \<not> stops_on_false
        (the (Data (XGo_Attr \<lparr>Data = Some (from_list [ex_img, ex_p]), Err = None\<rparr> ''href'')))"
  by (simp add: XGo_Attr_def invoke_def func_def XGo_Attr_yield_def yield_def ex_img_def ex_p_def
      ex_v2_def)

section \<open>The reducers\<close>

text \<open>
  \<open>XGo_0\<close> over a sequence that keeps the contract of \<section>4.1: the first item, or
  \<open>ErrNotFound\<close>, after one call of the callback at most.
\<close>

lemma XGo_0_on_contract_sequence:
  assumes "Err p = None" and "Data p = Some d" and "stops_on_false d" and "never_panics d"
  shows "ValueSet_XGo_0 p =
      Some (case Collect_seq d of [] \<Rightarrow> ([], Some html_ErrNotFound) | a # rest \<Rightarrow> (X_0 a, X_1 a))
    \<and> items d ValueSet_XGo_0_yield ([], Some html_ErrNotFound) = take 1 (Collect_seq d)"
proof -
  define xs where "xs = Collect_seq d"
  have d: "d = from_list xs"
    unfolding xs_def using assms(3,4) by (rule lawful_from_list)
  have "drive (from_list xs) ValueSet_XGo_0_yield ([], Some html_ErrNotFound) =
      Some (case xs of [] \<Rightarrow> ([], Some html_ErrNotFound) | a # rest \<Rightarrow> (X_0 a, X_1 a))"
    by (cases xs) (simp_all add: ValueSet_XGo_0_yield_def)
  moreover have "items (from_list xs) ValueSet_XGo_0_yield ([], Some html_ErrNotFound) = take 1 xs"
    by (cases xs) (simp_all add: ValueSet_XGo_0_yield_def)
  ultimately show ?thesis
    unfolding xs_def [symmetric] by (simp add: ValueSet_XGo_0_def assms(1,2) invoke_top_def d)
qed

text \<open>
  C4. Over the \<open>ValueSet\<close> that \<open>XGo_Attr\<close> builds for the attribute \<open>href\<close> of the nodes
  \<open><img>\<close> and \<open><a href="/x">\<close>, the first item produced is the error \<open>ErrNotFound\<close>
  of \<open><img>\<close>, yet \<open>XGo_0\<close> returns the value \<open>/x\<close> with no error: its callback answered
  \<open>False\<close> at the first item and was called again with the second, which it stored.
\<close>

theorem XGo_0_after_XGo_Attr:
  "Collect_seq (the (Data (XGo_Attr \<lparr>Data = Some (from_list [ex_img, ex_a]), Err = None\<rparr> ''href'')))
     = [\<lparr>X_0 = [], X_1 = Some html_ErrNotFound\<rparr>, \<lparr>X_0 = ''/x'', X_1 = None\<rparr>]
   \<and> ValueSet_XGo_0 (XGo_Attr \<lparr>Data = Some (from_list [ex_img, ex_a]), Err = None\<rparr> ''href'')
     = Some (''/x'', None)
   \<and> items (the (Data (XGo_Attr \<lparr>Data = Some (from_list [ex_img, ex_a]), Err = None\<rparr> ''href'')))
       ValueSet_XGo_0_yield ([], Some html_ErrNotFound)
     = [\<lparr>X_0 = [], X_1 = Some html_ErrNotFound\<rparr>, \<lparr>X_0 = ''/x'', X_1 = None\<rparr>]"
  by (simp add: XGo_Attr_def invoke_def func_def XGo_Attr_yield_def yield_def ex_img_def ex_a_def
      ValueSet_XGo_0_def ValueSet_XGo_0_yield_def invoke_top_def)



lemma answers_later:
  assumes later: "\<And>v val err. cb v (False, val, err) = (False, (False, val, Some m))"
  shows "answers t cb (False, val, err)
    = replicate (length (items t cb (False, val, err))) False"
  by (induction t arbitrary: val err) (simp_all add: later)

lemma answers_first_and_unique:
  assumes first: "\<And>v val err. cb v (True, val, err) = (True, (False, g v))"
      and later: "\<And>v val err. cb v (False, val, err) = (False, (False, val, Some m))"
  shows "answers d cb (True, z, e) =
     (case items d cb (True, z, e) of [] \<Rightarrow> [] | x # xs \<Rightarrow> True # replicate (length xs) False)"
proof (cases d)
  case (Yield a k)
  obtain v e' where g: "g a = (v, e')" by (cases "g a")
  show ?thesis
    unfolding Yield using answers_later [of cb m "k True" v e', OF later]
    by (simp add: first g)
qed simp_all

lemma drive_fixed_or_panic:
  "(\<And>x. snd (cb x s) = s) \<Longrightarrow> drive t cb s = None \<or> drive t cb s = Some s"
proof (induction t)
  case (Yield a k)
  obtain b where "cb a s = (b, s)" using Yield.prems [of a] by (cases "cb a s") simp
  then show ?case using Yield.IH [of "k b"] Yield.prems by simp
qed simp_all

lemma drive_first_and_unique_items:
  assumes first: "\<And>v val err. cb v (True, val, err) = (True, (False, g v))"
      and later: "\<And>v val err. cb v (False, val, err) = (False, (False, val, Some m))"
  shows "drive d cb (True, z, Some nf) = None \<or> drive d cb (True, z, Some nf) =
     Some (case items d cb (True, z, Some nf) of
             [] \<Rightarrow> (True, z, Some nf)
           | [a] \<Rightarrow> (False, g a)
           | a # b # rest \<Rightarrow> (False, fst (g a), Some m))"
proof (cases d)
  case (Return u) then show ?thesis by simp
next
  case Panic then show ?thesis by simp
next
  case (Yield a k)
  note d = this
  obtain v e' where g: "g a = (v, e')" by (cases "g a")
  show ?thesis
  proof (cases "k True")
    case (Return u) then show ?thesis using d by (simp add: first g)
  next
    case Panic then show ?thesis using d by (simp add: first)
  next
    case (Yield b k')
    have "drive (k' False) cb (False, v, Some m) = None
        \<or> drive (k' False) cb (False, v, Some m) = Some (False, v, Some m)"
      by (rule drive_fixed_or_panic) (simp add: later)
    then show ?thesis using d Yield by (auto simp add: first later g)
  qed
qed

lemma never_panics_drive: "never_panics d \<Longrightarrow> drive d cb s \<noteq> None"
proof (induction d arbitrary: s)
  case (Yield a k)
  obtain b s' where c: "cb a s = (b, s')" by (cases "cb a s")
  have "never_panics (k b)" using Yield.prems by (cases b) simp_all
  then show ?case using Yield.IH [of "k b" s'] c by simp
qed simp_all

lemma consumed_first_and_unique:
  assumes first: "\<And>v val err. cb v (True, val, err) = (True, (False, g v))"
      and later: "\<And>v val err. cb v (False, val, err) = (False, (False, val, Some m))"
  shows "consumed xs cb (True, z, e) = take 2 xs"
proof (cases xs)
  case (Cons a ys)
  obtain v e' where g: "g a = (v, e')" by (cases "g a")
  show ?thesis unfolding Cons by (cases ys) (simp_all add: first later g)
qed simp

lemma XGo_1_generic:
  assumes first: "\<And>v val err. cb v (True, val, err) = (True, (False, g v))"
      and later: "\<And>v val err. cb v (False, val, err) = (False, (False, val, Some m))"
      and np: "never_panics d"
  shows "(case items d cb (True, z, Some nf) of
         [] \<Rightarrow> map_option snd (drive d cb (True, z, Some nf)) = Some (z, Some nf)
       | [a] \<Rightarrow> map_option snd (drive d cb (True, z, Some nf)) = Some (g a)
       | a # b # rest \<Rightarrow>
           map_option snd (drive d cb (True, z, Some nf)) = Some (fst (g a), Some m))
     \<and> answers d cb (True, z, Some nf) =
         (case items d cb (True, z, Some nf) of
            [] \<Rightarrow> [] | x # xs \<Rightarrow> True # replicate (length xs) False)
     \<and> (stops_on_false d \<longrightarrow> items d cb (True, z, Some nf) = take 2 (Collect_seq d))"
proof -
  have "drive d cb (True, z, Some nf) \<noteq> None" using np by (rule never_panics_drive)
  with drive_first_and_unique_items [of cb g m d z nf, OF first later]
  have "drive d cb (True, z, Some nf) =
     Some (case items d cb (True, z, Some nf) of
             [] \<Rightarrow> (True, z, Some nf)
           | [a] \<Rightarrow> (False, g a)
           | a # b # rest \<Rightarrow> (False, fst (g a), Some m))" by simp
  then have 1: "(case items d cb (True, z, Some nf) of
         [] \<Rightarrow> map_option snd (drive d cb (True, z, Some nf)) = Some (z, Some nf)
       | [a] \<Rightarrow> map_option snd (drive d cb (True, z, Some nf)) = Some (g a)
       | a # b # rest \<Rightarrow>
           map_option snd (drive d cb (True, z, Some nf)) = Some (fst (g a), Some m))"
    by (simp split: list.splits)
  have 2: "answers d cb (True, z, Some nf) =
         (case items d cb (True, z, Some nf) of
            [] \<Rightarrow> [] | x # xs \<Rightarrow> True # replicate (length xs) False)"
    using first later by (rule answers_first_and_unique)
  have 3: "stops_on_false d \<longrightarrow> items d cb (True, z, Some nf) = take 2 (Collect_seq d)"
    using items_lawful [of d cb "(True, z, Some nf)"] np
      consumed_first_and_unique [of cb g m "Collect_seq d" z "Some nf", OF first later]
    by simp
  from 1 2 3 show ?thesis by (intro conjI)
qed

text \<open>
  C3, as amended. \<open>XGo_1\<close> of \<open>html.ValueSet\<close>, of \<open>NodeSet\<close> and of
  \<open>util.ValueSet[T]\<close>: a set in the failed state gives its terminal error. In the ok
  state, for every sequence that does not panic, also one that goes on after the answer
  stop: when no item reaches the reducer the result is \<open>ErrNotFound\<close>; when exactly one
  does, it is that item's value and error; from a second item on, whatever that item
  carries and whatever follows, the error is \<open>ErrMultiEntities\<close> in place of the first
  item's, while the value returned is still the first item's value. The callback answers
  continue to the first item and stop to every later one, so a sequence that keeps the
  contract of \<section>4.1 hands it the first two items and no more.
\<close>

theorem XGo_1_first_and_unique:
  fixes p :: ValueSet and q :: NodeSet and r :: "'t util_ValueSet"
  shows
  "(Err p = Some e \<longrightarrow> ValueSet_XGo_1 p = Some ([], Some e)) \<and>
   (Err p = None \<and> Data p = Some d \<and> never_panics d \<longrightarrow>
      (case items d ValueSet_XGo_1_yield (True, [], Some html_ErrNotFound) of
         [] \<Rightarrow> ValueSet_XGo_1 p = Some ([], Some html_ErrNotFound)
       | [a] \<Rightarrow> ValueSet_XGo_1 p = Some (X_0 a, X_1 a)
       | a # b # rest \<Rightarrow> ValueSet_XGo_1 p = Some (X_0 a, Some html_ErrMultiEntities))
      \<and> answers d ValueSet_XGo_1_yield (True, [], Some html_ErrNotFound) =
          (case items d ValueSet_XGo_1_yield (True, [], Some html_ErrNotFound) of
             [] \<Rightarrow> [] | x # xs \<Rightarrow> True # replicate (length xs) False)
      \<and> (stops_on_false d \<longrightarrow>
            items d ValueSet_XGo_1_yield (True, [], Some html_ErrNotFound)
              = take 2 (Collect_seq d))) \<and>
   (Err q = Some e \<longrightarrow> XGo_1 q = Some (None, Some e)) \<and>
   (Err q = None \<and> Data q = Some dn \<and> never_panics dn \<longrightarrow>
      (case items dn XGo_1_yield (True, None, Some html_ErrNotFound) of
         [] \<Rightarrow> XGo_1 q = Some (None, Some html_ErrNotFound)
       | [a] \<Rightarrow> XGo_1 q = Some (Some a, None)
       | a # b # rest \<Rightarrow> XGo_1 q = Some (Some a, Some html_ErrMultiEntities))
      \<and> answers dn XGo_1_yield (True, None, Some html_ErrNotFound) =
          (case items dn XGo_1_yield (True, None, Some html_ErrNotFound) of
             [] \<Rightarrow> [] | x # xs \<Rightarrow> True # replicate (length xs) False)
      \<and> (stops_on_false dn \<longrightarrow>
            items dn XGo_1_yield (True, None, Some html_ErrNotFound)
              = take 2 (Collect_seq dn))) \<and>
   (Err r = Some e \<longrightarrow> util_XGo_1 zero r = Some (zero, Some e)) \<and>
   (Err r = None \<and> Data r = Some du \<and> never_panics du \<longrightarrow>
      (case items du util_XGo_1_yield (True, zero, Some util_ErrNotFound) of
         [] \<Rightarrow> util_XGo_1 zero r = Some (zero, Some util_ErrNotFound)
       | [a] \<Rightarrow> util_XGo_1 zero r = Some (X_0 a, X_1 a)
       | a # b # rest \<Rightarrow> util_XGo_1 zero r = Some (X_0 a, Some util_ErrMultiEntities))
      \<and> answers du util_XGo_1_yield (True, zero, Some util_ErrNotFound) =
          (case items du util_XGo_1_yield (True, zero, Some util_ErrNotFound) of
             [] \<Rightarrow> [] | x # xs \<Rightarrow> True # replicate (length xs) False)
      \<and> (stops_on_false du \<longrightarrow>
            items du util_XGo_1_yield (True, zero, Some util_ErrNotFound)
              = take 2 (Collect_seq du)))"
proof -
  have c1: "Err p = Some e \<longrightarrow> ValueSet_XGo_1 p = Some ([], Some e)"
    by (simp add: ValueSet_XGo_1_def)
  have c3: "Err q = Some e \<longrightarrow> XGo_1 q = Some (None, Some e)"
    by (simp add: XGo_1_def)
  have c5: "Err r = Some e \<longrightarrow> util_XGo_1 zero r = Some (zero, Some e)"
    by (simp add: util_XGo_1_def)
  have c2: "Err p = None \<and> Data p = Some d \<and> never_panics d \<longrightarrow>
      (case items d ValueSet_XGo_1_yield (True, [], Some html_ErrNotFound) of
         [] \<Rightarrow> ValueSet_XGo_1 p = Some ([], Some html_ErrNotFound)
       | [a] \<Rightarrow> ValueSet_XGo_1 p = Some (X_0 a, X_1 a)
       | a # b # rest \<Rightarrow> ValueSet_XGo_1 p = Some (X_0 a, Some html_ErrMultiEntities))
      \<and> answers d ValueSet_XGo_1_yield (True, [], Some html_ErrNotFound) =
          (case items d ValueSet_XGo_1_yield (True, [], Some html_ErrNotFound) of
             [] \<Rightarrow> [] | x # xs \<Rightarrow> True # replicate (length xs) False)
      \<and> (stops_on_false d \<longrightarrow>
            items d ValueSet_XGo_1_yield (True, [], Some html_ErrNotFound)
              = take 2 (Collect_seq d))"
  proof (intro impI, elim conjE)
    assume a: "Err p = None" "Data p = Some d" "never_panics d"
    have v: "ValueSet_XGo_1 p
        = map_option snd (drive d ValueSet_XGo_1_yield (True, [], Some html_ErrNotFound))"
      by (simp add: ValueSet_XGo_1_def invoke_top_def a)
    show "(case items d ValueSet_XGo_1_yield (True, [], Some html_ErrNotFound) of
         [] \<Rightarrow> ValueSet_XGo_1 p = Some ([], Some html_ErrNotFound)
       | [a] \<Rightarrow> ValueSet_XGo_1 p = Some (X_0 a, X_1 a)
       | a # b # rest \<Rightarrow> ValueSet_XGo_1 p = Some (X_0 a, Some html_ErrMultiEntities))
      \<and> answers d ValueSet_XGo_1_yield (True, [], Some html_ErrNotFound) =
          (case items d ValueSet_XGo_1_yield (True, [], Some html_ErrNotFound) of
             [] \<Rightarrow> [] | x # xs \<Rightarrow> True # replicate (length xs) False)
      \<and> (stops_on_false d \<longrightarrow>
            items d ValueSet_XGo_1_yield (True, [], Some html_ErrNotFound)
              = take 2 (Collect_seq d))"
      unfolding v
      using XGo_1_generic [of ValueSet_XGo_1_yield "\<lambda>v. (X_0 v, X_1 v)" html_ErrMultiEntities d
          "[]" html_ErrNotFound, OF _ _ a(3)]
      by (auto simp add: ValueSet_XGo_1_yield_def split: list.splits)
  qed
  have c4: "Err q = None \<and> Data q = Some dn \<and> never_panics dn \<longrightarrow>
      (case items dn XGo_1_yield (True, None, Some html_ErrNotFound) of
         [] \<Rightarrow> XGo_1 q = Some (None, Some html_ErrNotFound)
       | [a] \<Rightarrow> XGo_1 q = Some (Some a, None)
       | a # b # rest \<Rightarrow> XGo_1 q = Some (Some a, Some html_ErrMultiEntities))
      \<and> answers dn XGo_1_yield (True, None, Some html_ErrNotFound) =
          (case items dn XGo_1_yield (True, None, Some html_ErrNotFound) of
             [] \<Rightarrow> [] | x # xs \<Rightarrow> True # replicate (length xs) False)
      \<and> (stops_on_false dn \<longrightarrow>
            items dn XGo_1_yield (True, None, Some html_ErrNotFound)
              = take 2 (Collect_seq dn))"
  proof (intro impI, elim conjE)
    assume a: "Err q = None" "Data q = Some dn" "never_panics dn"
    have v: "XGo_1 q
        = map_option snd (drive dn XGo_1_yield (True, None, Some html_ErrNotFound))"
      by (simp add: XGo_1_def invoke_top_def a)
    show "(case items dn XGo_1_yield (True, None, Some html_ErrNotFound) of
         [] \<Rightarrow> XGo_1 q = Some (None, Some html_ErrNotFound)
       | [a] \<Rightarrow> XGo_1 q = Some (Some a, None)
       | a # b # rest \<Rightarrow> XGo_1 q = Some (Some a, Some html_ErrMultiEntities))
      \<and> answers dn XGo_1_yield (True, None, Some html_ErrNotFound) =
          (case items dn XGo_1_yield (True, None, Some html_ErrNotFound) of
             [] \<Rightarrow> [] | x # xs \<Rightarrow> True # replicate (length xs) False)
      \<and> (stops_on_false dn \<longrightarrow>
            items dn XGo_1_yield (True, None, Some html_ErrNotFound)
              = take 2 (Collect_seq dn))"
      unfolding v
      using XGo_1_generic [of XGo_1_yield "\<lambda>n. (Some n, None)" html_ErrMultiEntities dn
          None html_ErrNotFound, OF _ _ a(3)]
      by (auto simp add: XGo_1_yield_def split: list.splits)
  qed
  have c6: "Err r = None \<and> Data r = Some du \<and> never_panics du \<longrightarrow>
      (case items du util_XGo_1_yield (True, zero, Some util_ErrNotFound) of
         [] \<Rightarrow> util_XGo_1 zero r = Some (zero, Some util_ErrNotFound)
       | [a] \<Rightarrow> util_XGo_1 zero r = Some (X_0 a, X_1 a)
       | a # b # rest \<Rightarrow> util_XGo_1 zero r = Some (X_0 a, Some util_ErrMultiEntities))
      \<and> answers du util_XGo_1_yield (True, zero, Some util_ErrNotFound) =
          (case items du util_XGo_1_yield (True, zero, Some util_ErrNotFound) of
             [] \<Rightarrow> [] | x # xs \<Rightarrow> True # replicate (length xs) False)
      \<and> (stops_on_false du \<longrightarrow>
            items du util_XGo_1_yield (True, zero, Some util_ErrNotFound)
              = take 2 (Collect_seq du))"
  proof (intro impI, elim conjE)
    assume a: "Err r = None" "Data r = Some du" "never_panics du"
    have v: "util_XGo_1 zero r
        = map_option snd (drive du util_XGo_1_yield (True, zero, Some util_ErrNotFound))"
      by (simp add: util_XGo_1_def invoke_top_def a)
    show "(case items du util_XGo_1_yield (True, zero, Some util_ErrNotFound) of
         [] \<Rightarrow> util_XGo_1 zero r = Some (zero, Some util_ErrNotFound)
       | [a] \<Rightarrow> util_XGo_1 zero r = Some (X_0 a, X_1 a)
       | a # b # rest \<Rightarrow> util_XGo_1 zero r = Some (X_0 a, Some util_ErrMultiEntities))
      \<and> answers du util_XGo_1_yield (True, zero, Some util_ErrNotFound) =
          (case items du util_XGo_1_yield (True, zero, Some util_ErrNotFound) of
             [] \<Rightarrow> [] | x # xs \<Rightarrow> True # replicate (length xs) False)
      \<and> (stops_on_false du \<longrightarrow>
            items du util_XGo_1_yield (True, zero, Some util_ErrNotFound)
              = take 2 (Collect_seq du))"
      unfolding v
      using XGo_1_generic [of util_XGo_1_yield "\<lambda>v. (X_0 v, X_1 v)" util_ErrMultiEntities du
          zero util_ErrNotFound, OF _ _ a(3)]
      by (auto simp add: util_XGo_1_yield_def split: list.splits)
  qed
  from c1 c2 c3 c4 c5 c6 show ?thesis by (intro conjI)
qed

theorem XGo_1_first_and_unique_witness:
  "ValueSet_XGo_1 \<lparr>Data = None, Err = Some (Upstream ''eof'')\<rparr> = Some ([], Some (Upstream ''eof''))
   \<and> never_panics (from_list [ex_v1, ex_v2, ex_v3])
   \<and> stops_on_false (from_list [ex_v1, ex_v2, ex_v3])
   \<and> ValueSet_XGo_1 \<lparr>Data = Some (from_list [ex_v1, ex_v2, ex_v3]), Err = None\<rparr>
        = Some (''v'', Some html_ErrMultiEntities)
   \<and> items (from_list [ex_v1, ex_v2, ex_v3]) ValueSet_XGo_1_yield (True, [], Some html_ErrNotFound)
        = [ex_v1, ex_v2]
   \<and> answers (from_list [ex_v1, ex_v2, ex_v3]) ValueSet_XGo_1_yield
        (True, [], Some html_ErrNotFound) = [True, False]
   \<and> XGo_1 \<lparr>Data = Some (from_list [ex_p, ex_img]), Err = None\<rparr>
        = Some (Some ex_p, Some html_ErrMultiEntities)
   \<and> util_XGo_1 [] \<lparr>Data = Some (from_list [ex_v1, ex_v2, ex_v3]), Err = None\<rparr>
        = Some (''v'', Some util_ErrMultiEntities)
   \<and> ValueSet_XGo_1 \<lparr>Data = Some (from_list [ex_v2]), Err = None\<rparr>
        = Some ([], Some html_ErrNotFound)
   \<and> XGo_1 \<lparr>Data = Some (from_list [ex_img]), Err = None\<rparr> = Some (Some ex_img, None)
   \<and> util_XGo_1 (0 :: nat) \<lparr>Data = Some (from_list []), Err = None\<rparr>
        = Some (0, Some util_ErrNotFound)"
proof -
  let ?s = "(True, [], Some html_ErrNotFound) :: bool \<times> string \<times> error option"
  have h1: "never_panics (from_list [ex_v1, ex_v2, ex_v3])" by simp
  have h2: "stops_on_false (from_list [ex_v1, ex_v2, ex_v3])" by simp
  have h3: "never_panics (from_list [ex_p, ex_img])" by simp
  have h4: "never_panics (from_list [ex_v2])" by simp
  have h5: "never_panics (from_list [ex_img])" by simp
  have h6: "never_panics (from_list ([] :: nat Value list))" by simp
  have i1: "items (from_list [ex_v1, ex_v2, ex_v3]) ValueSet_XGo_1_yield ?s = [ex_v1, ex_v2]"
    by (simp add: ValueSet_XGo_1_yield_def)
  have i2: "items (from_list [ex_p, ex_img]) XGo_1_yield (True, None, Some html_ErrNotFound)
      = [ex_p, ex_img]"
    by (simp add: XGo_1_yield_def)
  have i3: "items (from_list [ex_v1, ex_v2, ex_v3]) util_XGo_1_yield
      (True, [], Some util_ErrNotFound) = [ex_v1, ex_v2]"
    by (simp add: util_XGo_1_yield_def)
  have i4: "items (from_list [ex_v2]) ValueSet_XGo_1_yield ?s = [ex_v2]"
    by (simp add: ValueSet_XGo_1_yield_def)
  have i5: "items (from_list [ex_img]) XGo_1_yield (True, None, Some html_ErrNotFound) = [ex_img]"
    by (simp add: XGo_1_yield_def)
  have i6: "items (from_list ([] :: nat Value list)) util_XGo_1_yield
      (True, 0, Some util_ErrNotFound) = []"
    by simp
  note a = XGo_1_first_and_unique [of "\<lparr>Data = None, Err = Some (Upstream ''eof'')\<rparr>"
        "Upstream ''eof''" "from_list [ex_v1]" "\<lparr>Data = None, Err = Some (Upstream ''eof'')\<rparr>"
        "from_list [ex_p]" "\<lparr>Data = None, Err = Some (Upstream ''eof'')\<rparr>" "[]"
        "from_list [ex_v1]"]
  note b = XGo_1_first_and_unique [of
        "\<lparr>Data = Some (from_list [ex_v1, ex_v2, ex_v3]), Err = None\<rparr>"
        "Upstream ''eof''" "from_list [ex_v1, ex_v2, ex_v3]"
        "\<lparr>Data = Some (from_list [ex_p, ex_img]), Err = None\<rparr>" "from_list [ex_p, ex_img]"
        "\<lparr>Data = Some (from_list [ex_v1, ex_v2, ex_v3]), Err = None\<rparr>" "[]"
        "from_list [ex_v1, ex_v2, ex_v3]", unfolded i1 i2 i3]
  note c = XGo_1_first_and_unique [of "\<lparr>Data = Some (from_list [ex_v2]), Err = None\<rparr>"
        "Upstream ''eof''" "from_list [ex_v2]"
        "\<lparr>Data = Some (from_list [ex_img]), Err = None\<rparr>" "from_list [ex_img]"
        "\<lparr>Data = Some (from_list []), Err = None\<rparr>" "0 :: nat"
        "from_list []", unfolded i4 i5 i6]
  show ?thesis
    using h1 h2 h3 h4 h5 h6 i1 a b c
    by (simp add: ex_v1_def ex_v2_def del: from_list.simps items.simps)
qed

text \<open>
  C3, as stated, fails: over two items \<open>XGo_1\<close> does not discard the first result. It
  returns the first item's value (\<open>v\<close>, the node \<open><p>\<close>) beside \<open>ErrMultiEntities\<close>, not
  the zero value.
\<close>

theorem XGo_1_keeps_first_value_counterexample:
  "ValueSet_XGo_1 \<lparr>Data = Some (from_list [ex_v1, ex_v3]), Err = None\<rparr>
     = Some (''v'', Some html_ErrMultiEntities)
   \<and> ValueSet_XGo_1 \<lparr>Data = Some (from_list [ex_v1, ex_v3]), Err = None\<rparr>
     \<noteq> Some ([], Some html_ErrMultiEntities)
   \<and> XGo_1 \<lparr>Data = Some (from_list [ex_p, ex_img]), Err = None\<rparr>
     = Some (Some ex_p, Some html_ErrMultiEntities)
   \<and> XGo_1 \<lparr>Data = Some (from_list [ex_p, ex_img]), Err = None\<rparr>
     \<noteq> Some (None, Some html_ErrMultiEntities)"
  by (simp add: ValueSet_XGo_1_def XGo_1_def invoke_top_def ValueSet_XGo_1_yield_def
      XGo_1_yield_def ex_v1_def ex_v3_def)

text \<open>
  Over a \<open>ValueSet\<close> built by \<open>XGo_Attr\<close> the callback of \<open>XGo_1\<close> can be called after
  it answered stop (the sequence does not keep the contract, see C2); the result is the
  same.
\<close>

lemma XGo_1_after_XGo_Attr:
  "items (the (Data (XGo_Attr \<lparr>Data = Some (from_list [ex_a, ex_img, ex_p]), Err = None\<rparr>
       ''href''))) ValueSet_XGo_1_yield (True, [], Some html_ErrNotFound)
     = [\<lparr>X_0 = ''/x'', X_1 = None\<rparr>, ex_v2, ex_v2]
   \<and> ValueSet_XGo_1 (XGo_Attr \<lparr>Data = Some (from_list [ex_a, ex_img, ex_p]), Err = None\<rparr>
       ''href'') = Some (''/x'', Some html_ErrMultiEntities)"
  by (simp add: XGo_Attr_def invoke_def func_def XGo_Attr_yield_def yield_def ex_img_def ex_a_def
      ex_p_def ex_v2_def ValueSet_XGo_1_def ValueSet_XGo_1_yield_def invoke_top_def)

section \<open>Construction\<close>

text \<open>
  C8. \<open>Source\<close> wraps a node sequence as it is and returns a \<open>NodeSet\<close> unchanged,
  whatever the parser and the opener are; it hands bytes (through \<open>bytes.NewReader\<close>), a
  reader and an opened string source to \<open>New\<close>; a failure to open and a failure to parse
  give the failed state with that error; a successful parse gives the ok state with the
  one-item sequence of the root node, which \<open>XGo_1\<close> returns; any other source is a
  panic, no \<open>NodeSet\<close>.
\<close>

theorem Source_cases:
  "Source Open NewReader Parse (Src_Seq v) = Inr \<lparr>Data = v, Err = None\<rparr>
   \<and> Source Open NewReader Parse (Src_NodeSet ns) = Inr ns
   \<and> Source Open NewReader Parse (Src_bytes bs) = Inr (New Parse (NewReader bs))
   \<and> Source Open NewReader Parse (Src_Reader rd) = Inr (New Parse rd)
   \<and> (Open url = Inr f \<longrightarrow> Source Open NewReader Parse (Src_string url) = Inr (New Parse f))
   \<and> (Open url = Inl err \<longrightarrow>
        Source Open NewReader Parse (Src_string url) = Inr \<lparr>Data = None, Err = Some err\<rparr>)
   \<and> (Parse rd = Inl err \<longrightarrow> New Parse rd = \<lparr>Data = None, Err = Some err\<rparr>)
   \<and> (Parse rd = Inr doc \<longrightarrow>
        New Parse rd = \<lparr>Data = Some (from_list [doc]), Err = None\<rparr>
        \<and> XGo_1 (New Parse rd) = Some (Some doc, None))
   \<and> Source Open NewReader Parse (Src_other x) = Inl ''dql/html.Source: unsupport source type''"
proof -
  have new_ok: "New Parse rd = \<lparr>Data = Some (from_list [doc]), Err = None\<rparr>"
    if "Parse rd = Inr doc"
    using that by (simp add: New_def func_def yield_def cong: if_cong)
  have one: "XGo_1 \<lparr>Data = Some (from_list [doc]), Err = None\<rparr> = Some (Some doc, None)"
    by (simp add: XGo_1_def invoke_top_def XGo_1_yield_def)
  have new_err: "New Parse rd = \<lparr>Data = None, Err = Some err\<rparr>" if "Parse rd = Inl err"
    using that by (simp add: New_def)
  have src: "Source Open NewReader Parse (Src_Seq v) = Inr \<lparr>Data = v, Err = None\<rparr>"
    "Source Open NewReader Parse (Src_NodeSet ns) = Inr ns"
    "Source Open NewReader Parse (Src_bytes bs) = Inr (New Parse (NewReader bs))"
    "Source Open NewReader Parse (Src_Reader rd) = Inr (New Parse rd)"
    "Source Open NewReader Parse (Src_other x) = Inl ''dql/html.Source: unsupport source type''"
    by (simp_all add: Source_def)
  have str: "Open url = Inr f \<longrightarrow>
      Source Open NewReader Parse (Src_string url) = Inr (New Parse f)"
    "Open url = Inl err \<longrightarrow>
      Source Open NewReader Parse (Src_string url) = Inr \<lparr>Data = None, Err = Some err\<rparr>"
    by (simp_all add: Source_def)
  show ?thesis
    using new_ok new_err one src str by simp
qed

theorem Source_cases_witness:
  "Source (\<lambda>u. if u = ''ok.html'' then Inr True else Inl (Upstream ''open failed''))
      (\<lambda>bs. bs \<noteq> []) (\<lambda>r. if r then Inr ex_doc else Inl (Upstream ''EOF''))
      (Src_string ''ok.html'' :: (bool, unit) source)
     = Inr \<lparr>Data = Some (from_list [ex_doc]), Err = None\<rparr>
   \<and> Source (\<lambda>u. if u = ''ok.html'' then Inr True else Inl (Upstream ''open failed''))
      (\<lambda>bs. bs \<noteq> []) (\<lambda>r. if r then Inr ex_doc else Inl (Upstream ''EOF''))
      (Src_string ''missing'' :: (bool, unit) source)
     = Inr \<lparr>Data = None, Err = Some (Upstream ''open failed'')\<rparr>
   \<and> Source (\<lambda>u. if u = ''ok.html'' then Inr True else Inl (Upstream ''open failed''))
      (\<lambda>bs. bs \<noteq> []) (\<lambda>r. if r then Inr ex_doc else Inl (Upstream ''EOF''))
      (Src_bytes [] :: (bool, unit) source)
     = Inr \<lparr>Data = None, Err = Some (Upstream ''EOF'')\<rparr>
   \<and> Source (\<lambda>u. if u = ''ok.html'' then Inr True else Inl (Upstream ''open failed''))
      (\<lambda>bs. bs \<noteq> []) (\<lambda>r. if r then Inr ex_doc else Inl (Upstream ''EOF''))
      (Src_other () :: (bool, unit) source)
     = Inl ''dql/html.Source: unsupport source type''"
proof -
  let ?Open = "\<lambda>u. if u = ''ok.html'' then Inr True else Inl (Upstream ''open failed'')"
  let ?New = "\<lambda>bs :: nat list. bs \<noteq> []"
  let ?Parse = "\<lambda>r. if r then Inr ex_doc else Inl (Upstream ''EOF'')"
  have o1: "?Open ''ok.html'' = Inr True" by simp
  have o2: "?Open ''missing'' = Inl (Upstream ''open failed'')" by simp
  have p1: "?Parse True = Inr ex_doc" by simp
  have p2: "?Parse (?New []) = Inl (Upstream ''EOF'')" by simp
  note a = Source_cases [where Open = ?Open and NewReader = ?New and Parse = ?Parse
      and url = "''ok.html''" and f = True and rd = True and doc = ex_doc and bs = "[]"
      and x = "()"]
  note b = Source_cases [where Open = ?Open and NewReader = ?New and Parse = ?Parse
      and url = "''missing''" and err = "Upstream ''open failed''" and bs = "[]" and x = "()"]
  note c = Source_cases [where Open = ?Open and NewReader = ?New and Parse = ?Parse
      and rd = "?New []" and err = "Upstream ''EOF''" and bs = "[]" and x = "()"]
  have 1: "Source ?Open ?New ?Parse (Src_string ''ok.html'' :: (bool, unit) source)
      = Inr (New ?Parse True)"
    using a o1 by blast
  have 2: "New ?Parse True = \<lparr>Data = Some (from_list [ex_doc]), Err = None\<rparr>"
    using a p1 by blast
  have 3: "Source ?Open ?New ?Parse (Src_string ''missing'' :: (bool, unit) source)
      = Inr \<lparr>Data = None, Err = Some (Upstream ''open failed'')\<rparr>"
    using b o2 by blast
  have 4: "Source ?Open ?New ?Parse (Src_bytes [] :: (bool, unit) source)
      = Inr (New ?Parse (?New []))"
    using c by blast
  have 5: "New ?Parse (?New []) = \<lparr>Data = None, Err = Some (Upstream ''EOF'')\<rparr>"
    using c p2 by blast
  have 6: "Source ?Open ?New ?Parse (Src_other () :: (bool, unit) source)
      = Inl ''dql/html.Source: unsupport source type''"
    using c by blast
  show ?thesis
    unfolding 1 2 3 4 5 6 by simp
qed

section \<open>The generic reducers at \<open>T = string\<close>\<close>

text \<open>
  A simulation: two callbacks that answer alike and keep related states related give
  related final states, or panic together.
\<close>

lemma drive_sim:
  assumes step: "\<And>v s s'. R s s' \<Longrightarrow>
            fst (cb v s) = fst (cb' v s') \<and> R (snd (cb v s)) (snd (cb' v s'))"
      and "R s s'"
  shows "rel_option R (drive d cb s) (drive d cb' s')"
  using assms(2)
proof (induction d arbitrary: s s')
  case (Yield a k)
  obtain b t where c: "cb a s = (b, t)" by (cases "cb a s")
  obtain b' t' where c': "cb' a s' = (b', t')" by (cases "cb' a s'")
  from step [OF Yield.prems, of a] c c' have "b = b'" and "R t t'" by simp_all
  then show ?case using Yield.IH [of "k b" t t'] c c' by simp
qed simp_all

lemma same_result_rel:
  "rel_option (\<lambda>(v, e) (v', e'). v = v' \<and> same_but_sentinel e e') r r' \<Longrightarrow> same_result r r'"
  by (cases r; cases r') (auto simp add: same_result_def)

lemma same_result_msg:
  "same_result r r' \<Longrightarrow>
     map_option (apsnd (map_option Error_msg)) r = map_option (apsnd (map_option Error_msg)) r'"
  by (cases r; cases r') (auto simp add: same_result_def same_but_sentinel_def)

lemma XGo_0_sim:
  "rel_option (\<lambda>(v, e) (v', e'). v = v' \<and> same_but_sentinel e e')
     (drive d ValueSet_XGo_0_yield ([], Some html_ErrNotFound))
     (drive d util_XGo_0_yield ([], Some util_ErrNotFound))"
  by (rule drive_sim)
    (auto simp add: ValueSet_XGo_0_yield_def util_XGo_0_yield_def same_but_sentinel_def)

lemma XGo_1_sim:
  "rel_option (\<lambda>(f, v, e) (f', v', e'). f = f' \<and> v = v' \<and> same_but_sentinel e e')
     (drive d ValueSet_XGo_1_yield (True, [], Some html_ErrNotFound))
     (drive d util_XGo_1_yield (True, [], Some util_ErrNotFound))"
  by (rule drive_sim)
    (auto simp add: ValueSet_XGo_1_yield_def util_XGo_1_yield_def same_but_sentinel_def
      split: if_splits)

lemma rel_option_snd:
  "rel_option (\<lambda>(f, v, e) (f', v', e'). f = f' \<and> v = v' \<and> Q e e') x y \<Longrightarrow>
   rel_option (\<lambda>(v, e) (v', e'). v = v' \<and> Q e e') (map_option snd x) (map_option snd y)"
  by (cases x; cases y) auto

lemma items_sim:
  assumes step: "\<And>v s s'. R s s' \<Longrightarrow>
            fst (cb v s) = fst (cb' v s') \<and> R (snd (cb v s)) (snd (cb' v s'))"
      and "R s s'"
  shows "items d cb s = items d cb' s'"
  using assms(2)
proof (induction d arbitrary: s s')
  case (Yield a k)
  obtain b t where c: "cb a s = (b, t)" by (cases "cb a s")
  obtain b' t' where c': "cb' a s' = (b', t')" by (cases "cb' a s'")
  from step [OF Yield.prems, of a] c c' have "b = b'" and "R t t'" by simp_all
  then show ?case using Yield.IH [of "k b" t t'] c c' by simp
qed simp_all

lemma XGo_0_yield_same: "util_XGo_0_yield = ValueSet_XGo_0_yield"
  by (rule ext) (simp add: util_XGo_0_yield_def ValueSet_XGo_0_yield_def)

lemma XGo_0_items_same:
  "items d util_XGo_0_yield ([], Some util_ErrNotFound)
     = items d ValueSet_XGo_0_yield ([], Some html_ErrNotFound)"
  by (cases d) (simp_all add: XGo_0_yield_same ValueSet_XGo_0_yield_def)

lemma XGo_1_items_same:
  "items d util_XGo_1_yield (True, [], Some util_ErrNotFound)
     = items d ValueSet_XGo_1_yield (True, [], Some html_ErrNotFound)"
  by (rule items_sim [where R = "\<lambda>(f, v, e) (f', v', e'). f = f' \<and> v = v'"])
    (auto simp add: ValueSet_XGo_1_yield_def util_XGo_1_yield_def split: if_splits)

lemma XGo_0_exact:
  "case items d ValueSet_XGo_0_yield ([], Some html_ErrNotFound) of
     [] \<Rightarrow> drive d ValueSet_XGo_0_yield ([], Some html_ErrNotFound) = None
         \<or> (drive d ValueSet_XGo_0_yield ([], Some html_ErrNotFound)
               = Some ([], Some html_ErrNotFound)
            \<and> drive d util_XGo_0_yield ([], Some util_ErrNotFound)
               = Some ([], Some util_ErrNotFound))
   | a # rest \<Rightarrow> drive d util_XGo_0_yield ([], Some util_ErrNotFound)
         = drive d ValueSet_XGo_0_yield ([], Some html_ErrNotFound)"
  by (cases d) (simp_all add: XGo_0_yield_same ValueSet_XGo_0_yield_def)

lemma rel_option_None_iff: "rel_option R x y \<Longrightarrow> (y = None) = (x = None)"
  by (cases x; cases y) simp_all

lemma XGo_1_exact:
  "case items d ValueSet_XGo_1_yield (True, [], Some html_ErrNotFound) of
     [] \<Rightarrow> map_option snd (drive d ValueSet_XGo_1_yield (True, [], Some html_ErrNotFound)) = None
        \<or> (map_option snd (drive d ValueSet_XGo_1_yield (True, [], Some html_ErrNotFound))
              = Some ([], Some html_ErrNotFound)
            \<and> map_option snd (drive d util_XGo_1_yield (True, [], Some util_ErrNotFound))
              = Some ([], Some util_ErrNotFound))
   | [a] \<Rightarrow> map_option snd (drive d util_XGo_1_yield (True, [], Some util_ErrNotFound))
        = map_option snd (drive d ValueSet_XGo_1_yield (True, [], Some html_ErrNotFound))
   | a # b # rest \<Rightarrow>
        map_option snd (drive d ValueSet_XGo_1_yield (True, [], Some html_ErrNotFound)) = None
        \<or> (map_option snd (drive d ValueSet_XGo_1_yield (True, [], Some html_ErrNotFound))
              = Some (X_0 a, Some html_ErrMultiEntities)
            \<and> map_option snd (drive d util_XGo_1_yield (True, [], Some util_ErrNotFound))
              = Some (X_0 a, Some util_ErrMultiEntities))"
proof -
  let ?h = "drive d ValueSet_XGo_1_yield (True, [], Some html_ErrNotFound)"
  let ?u = "drive d util_XGo_1_yield (True, [], Some util_ErrNotFound)"
  let ?its = "items d ValueSet_XGo_1_yield (True, [], Some html_ErrNotFound)"
  have h: "?h = None \<or> ?h = Some (case ?its of
             [] \<Rightarrow> (True, [], Some html_ErrNotFound)
           | [a] \<Rightarrow> (False, X_0 a, X_1 a)
           | a # b # rest \<Rightarrow> (False, fst (X_0 a, X_1 a), Some html_ErrMultiEntities))"
    by (rule drive_first_and_unique_items) (simp_all add: ValueSet_XGo_1_yield_def)
  have u: "?u = None \<or> ?u = Some (case ?its of
             [] \<Rightarrow> (True, [], Some util_ErrNotFound)
           | [a] \<Rightarrow> (False, X_0 a, X_1 a)
           | a # b # rest \<Rightarrow> (False, fst (X_0 a, X_1 a), Some util_ErrMultiEntities))"
    unfolding XGo_1_items_same [symmetric]
    by (rule drive_first_and_unique_items) (simp_all add: util_XGo_1_yield_def)
  have n: "(?u = None) = (?h = None)"
    using XGo_1_sim [of d] by (rule rel_option_None_iff)
  show ?thesis
    using h u n by (auto split: list.splits)
qed

text \<open>
  C10, as amended. For every \<open>Data\<close> and \<open>Err\<close>, \<open>util.ValueSet[string]\<close> and
  \<open>html.ValueSet\<close> enumerate the same sequence; their \<open>XGo_0\<close> and \<open>XGo_1\<close> call their
  callbacks with the same items and panic on the same sets. The results are identical
  when the set is in the failed state or has no sequence, and when the result comes from
  an item (for \<open>XGo_0\<close> at least one item reached the callback, for \<open>XGo_1\<close> exactly
  one), whatever error \<open>Err\<close> or that item carries. When the reducer itself reports the
  outcome (no item reached the callback; for \<open>XGo_1\<close>, a second one did) the values are
  the same, the \<open>html\<close> reducer returns \<open>html.ErrNotFound\<close> or
  \<open>html.ErrMultiEntities\<close> and the generic one \<open>util.ErrNotFound\<close> or
  \<open>util.ErrMultiEntities\<close>: different error values with the same message.
\<close>

theorem util_reducers_match_html:
  fixes p :: ValueSet
  shows "util_XGo_Enum p = ValueSet_XGo_Enum p
    \<and> (Err p \<noteq> None \<or> Data p = None \<longrightarrow>
          util_XGo_0 [] p = ValueSet_XGo_0 p \<and> util_XGo_1 [] p = ValueSet_XGo_1 p)
    \<and> (util_XGo_0 [] p = None) = (ValueSet_XGo_0 p = None)
    \<and> (util_XGo_1 [] p = None) = (ValueSet_XGo_1 p = None)
    \<and> (Err p = None \<and> Data p = Some d \<longrightarrow>
          items d util_XGo_0_yield ([], Some util_ErrNotFound)
            = items d ValueSet_XGo_0_yield ([], Some html_ErrNotFound)
        \<and> items d util_XGo_1_yield (True, [], Some util_ErrNotFound)
            = items d ValueSet_XGo_1_yield (True, [], Some html_ErrNotFound)
        \<and> (case items d ValueSet_XGo_0_yield ([], Some html_ErrNotFound) of
              [] \<Rightarrow> ValueSet_XGo_0 p = None
                  \<or> (ValueSet_XGo_0 p = Some ([], Some html_ErrNotFound)
                     \<and> util_XGo_0 [] p = Some ([], Some util_ErrNotFound))
            | a # rest \<Rightarrow> util_XGo_0 [] p = ValueSet_XGo_0 p)
        \<and> (case items d ValueSet_XGo_1_yield (True, [], Some html_ErrNotFound) of
              [] \<Rightarrow> ValueSet_XGo_1 p = None
                  \<or> (ValueSet_XGo_1 p = Some ([], Some html_ErrNotFound)
                     \<and> util_XGo_1 [] p = Some ([], Some util_ErrNotFound))
            | [a] \<Rightarrow> util_XGo_1 [] p = ValueSet_XGo_1 p
            | a # b # rest \<Rightarrow> ValueSet_XGo_1 p = None
                  \<or> (ValueSet_XGo_1 p = Some (X_0 a, Some html_ErrMultiEntities)
                     \<and> util_XGo_1 [] p = Some (X_0 a, Some util_ErrMultiEntities))))
    \<and> map_option (apsnd (map_option Error_msg)) (ValueSet_XGo_0 p)
        = map_option (apsnd (map_option Error_msg)) (util_XGo_0 [] p)
    \<and> map_option (apsnd (map_option Error_msg)) (ValueSet_XGo_1 p)
        = map_option (apsnd (map_option Error_msg)) (util_XGo_1 [] p)"
proof -
  have e: "util_XGo_Enum p = ValueSet_XGo_Enum p"
    by (simp add: util_XGo_Enum_def ValueSet_XGo_Enum_def)
  have f: "Err p \<noteq> None \<or> Data p = None \<longrightarrow>
          util_XGo_0 [] p = ValueSet_XGo_0 p \<and> util_XGo_1 [] p = ValueSet_XGo_1 p"
    by (auto simp add: ValueSet_XGo_0_def util_XGo_0_def ValueSet_XGo_1_def util_XGo_1_def
        invoke_top_def)
  have r0: "same_result (ValueSet_XGo_0 p) (util_XGo_0 [] p)"
  proof (cases "Err p \<noteq> None \<or> Data p = None")
    case True
    then show ?thesis
      by (auto simp add: ValueSet_XGo_0_def util_XGo_0_def invoke_top_def same_result_def
          same_but_sentinel_def)
  next
    case False
    then obtain d where "Err p = None" and "Data p = Some d" by auto
    then show ?thesis
      using XGo_0_sim [of d]
      by (simp add: ValueSet_XGo_0_def util_XGo_0_def invoke_top_def same_result_rel)
  qed
  have r1: "same_result (ValueSet_XGo_1 p) (util_XGo_1 [] p)"
  proof (cases "Err p \<noteq> None \<or> Data p = None")
    case True
    then show ?thesis
      by (auto simp add: ValueSet_XGo_1_def util_XGo_1_def invoke_top_def same_result_def
          same_but_sentinel_def)
  next
    case False
    then obtain d where "Err p = None" and "Data p = Some d" by auto
    then show ?thesis
      using rel_option_snd [OF XGo_1_sim [of d]]
      by (simp add: ValueSet_XGo_1_def util_XGo_1_def invoke_top_def same_result_rel)
  qed
  have n0: "(util_XGo_0 [] p = None) = (ValueSet_XGo_0 p = None)"
    using r0 by (cases "ValueSet_XGo_0 p"; cases "util_XGo_0 [] p")
      (auto simp add: same_result_def)
  have n1: "(util_XGo_1 [] p = None) = (ValueSet_XGo_1 p = None)"
    using r1 by (cases "ValueSet_XGo_1 p"; cases "util_XGo_1 [] p")
      (auto simp add: same_result_def)
  have x: "Err p = None \<and> Data p = Some d \<longrightarrow>
          items d util_XGo_0_yield ([], Some util_ErrNotFound)
            = items d ValueSet_XGo_0_yield ([], Some html_ErrNotFound)
        \<and> items d util_XGo_1_yield (True, [], Some util_ErrNotFound)
            = items d ValueSet_XGo_1_yield (True, [], Some html_ErrNotFound)
        \<and> (case items d ValueSet_XGo_0_yield ([], Some html_ErrNotFound) of
              [] \<Rightarrow> ValueSet_XGo_0 p = None
                  \<or> (ValueSet_XGo_0 p = Some ([], Some html_ErrNotFound)
                     \<and> util_XGo_0 [] p = Some ([], Some util_ErrNotFound))
            | a # rest \<Rightarrow> util_XGo_0 [] p = ValueSet_XGo_0 p)
        \<and> (case items d ValueSet_XGo_1_yield (True, [], Some html_ErrNotFound) of
              [] \<Rightarrow> ValueSet_XGo_1 p = None
                  \<or> (ValueSet_XGo_1 p = Some ([], Some html_ErrNotFound)
                     \<and> util_XGo_1 [] p = Some ([], Some util_ErrNotFound))
            | [a] \<Rightarrow> util_XGo_1 [] p = ValueSet_XGo_1 p
            | a # b # rest \<Rightarrow> ValueSet_XGo_1 p = None
                  \<or> (ValueSet_XGo_1 p = Some (X_0 a, Some html_ErrMultiEntities)
                     \<and> util_XGo_1 [] p = Some (X_0 a, Some util_ErrMultiEntities)))"
  proof (intro impI, elim conjE)
    assume a: "Err p = None" "Data p = Some d"
    have v0: "ValueSet_XGo_0 p = drive d ValueSet_XGo_0_yield ([], Some html_ErrNotFound)"
      and u0: "util_XGo_0 [] p = drive d util_XGo_0_yield ([], Some util_ErrNotFound)"
      and v1: "ValueSet_XGo_1 p
        = map_option snd (drive d ValueSet_XGo_1_yield (True, [], Some html_ErrNotFound))"
      and u1: "util_XGo_1 [] p
        = map_option snd (drive d util_XGo_1_yield (True, [], Some util_ErrNotFound))"
      by (simp_all add: ValueSet_XGo_0_def util_XGo_0_def ValueSet_XGo_1_def util_XGo_1_def
          invoke_top_def a)
    show "items d util_XGo_0_yield ([], Some util_ErrNotFound)
            = items d ValueSet_XGo_0_yield ([], Some html_ErrNotFound)
        \<and> items d util_XGo_1_yield (True, [], Some util_ErrNotFound)
            = items d ValueSet_XGo_1_yield (True, [], Some html_ErrNotFound)
        \<and> (case items d ValueSet_XGo_0_yield ([], Some html_ErrNotFound) of
              [] \<Rightarrow> ValueSet_XGo_0 p = None
                  \<or> (ValueSet_XGo_0 p = Some ([], Some html_ErrNotFound)
                     \<and> util_XGo_0 [] p = Some ([], Some util_ErrNotFound))
            | a # rest \<Rightarrow> util_XGo_0 [] p = ValueSet_XGo_0 p)
        \<and> (case items d ValueSet_XGo_1_yield (True, [], Some html_ErrNotFound) of
              [] \<Rightarrow> ValueSet_XGo_1 p = None
                  \<or> (ValueSet_XGo_1 p = Some ([], Some html_ErrNotFound)
                     \<and> util_XGo_1 [] p = Some ([], Some util_ErrNotFound))
            | [a] \<Rightarrow> util_XGo_1 [] p = ValueSet_XGo_1 p
            | a # b # rest \<Rightarrow> ValueSet_XGo_1 p = None
                  \<or> (ValueSet_XGo_1 p = Some (X_0 a, Some html_ErrMultiEntities)
                     \<and> util_XGo_1 [] p = Some (X_0 a, Some util_ErrMultiEntities)))"
      unfolding v0 u0 v1 u1
      using XGo_0_items_same [of d] XGo_1_items_same [of d] XGo_0_exact [of d] XGo_1_exact [of d]
      by (intro conjI)
  qed
  from e f n0 n1 x same_result_msg [OF r0] same_result_msg [OF r1] show ?thesis
    by (intro conjI)
qed

theorem util_reducers_match_html_witness:
  "ValueSet_XGo_0 \<lparr>Data = Some (from_list []), Err = None\<rparr> = Some ([], Some html_ErrNotFound)
   \<and> util_XGo_0 [] \<lparr>Data = Some (from_list ([] :: string Value list)), Err = None\<rparr>
       = Some ([], Some util_ErrNotFound)
   \<and> ValueSet_XGo_0 \<lparr>Data = Some (from_list [ex_v2]), Err = None\<rparr>
       = Some ([], Some html_ErrNotFound)
   \<and> util_XGo_0 [] \<lparr>Data = Some (from_list [ex_v2]), Err = None\<rparr>
       = Some ([], Some html_ErrNotFound)
   \<and> ValueSet_XGo_1 \<lparr>Data = Some (from_list [ex_v1, ex_v3]), Err = None\<rparr>
       = Some (''v'', Some html_ErrMultiEntities)
   \<and> util_XGo_1 [] \<lparr>Data = Some (from_list [ex_v1, ex_v3]), Err = None\<rparr>
       = Some (''v'', Some util_ErrMultiEntities)"
proof -
  let ?p0 = "\<lparr>Data = Some (from_list ([] :: string Value list)), Err = None\<rparr>"
  let ?p1 = "\<lparr>Data = Some (from_list [ex_v2]), Err = None\<rparr>"
  let ?p2 = "\<lparr>Data = Some (from_list [ex_v1, ex_v3]), Err = None\<rparr>"
  have n0: "ValueSet_XGo_0 ?p0 \<noteq> None"
    by (simp add: ValueSet_XGo_0_def invoke_top_def)
  have n1: "ValueSet_XGo_1 ?p2 \<noteq> None"
    by (simp add: ValueSet_XGo_1_def invoke_top_def ValueSet_XGo_1_yield_def)
  have v2: "ValueSet_XGo_0 ?p1 = Some ([], Some html_ErrNotFound)"
    by (simp add: ValueSet_XGo_0_def invoke_top_def ValueSet_XGo_0_yield_def ex_v2_def)
  have i0: "items (from_list ([] :: string Value list)) ValueSet_XGo_0_yield
      ([], Some html_ErrNotFound) = []" by simp
  have i1: "items (from_list [ex_v2]) ValueSet_XGo_0_yield ([], Some html_ErrNotFound) = [ex_v2]"
    by (simp add: ValueSet_XGo_0_yield_def)
  have i2: "items (from_list [ex_v1, ex_v3]) ValueSet_XGo_1_yield
      (True, [], Some html_ErrNotFound) = [ex_v1, ex_v3]"
    by (simp add: ValueSet_XGo_1_yield_def)
  have x: "X_0 ex_v1 = ''v''" by (simp add: ex_v1_def)
  have e0: "Err ?p0 = None \<and> Data ?p0 = Some (from_list [])" by simp
  have e1: "Err ?p1 = None \<and> Data ?p1 = Some (from_list [ex_v2])" by simp
  have e2: "Err ?p2 = None \<and> Data ?p2 = Some (from_list [ex_v1, ex_v3])" by simp
  note a = util_reducers_match_html [of ?p0 "from_list []",
      THEN conjunct2, THEN conjunct2, THEN conjunct2, THEN conjunct2, THEN conjunct1,
      THEN mp, OF e0, THEN conjunct2, THEN conjunct2, THEN conjunct1, unfolded i0 list.case]
  note b = util_reducers_match_html [of ?p1 "from_list [ex_v2]",
      THEN conjunct2, THEN conjunct2, THEN conjunct2, THEN conjunct2, THEN conjunct1,
      THEN mp, OF e1, THEN conjunct2, THEN conjunct2, THEN conjunct1, unfolded i1 list.case]
  note c = util_reducers_match_html [of ?p2 "from_list [ex_v1, ex_v3]",
      THEN conjunct2, THEN conjunct2, THEN conjunct2, THEN conjunct2, THEN conjunct1,
      THEN mp, OF e2, THEN conjunct2, THEN conjunct2, THEN conjunct2, unfolded i2 list.case x]
  from a n0 have 1: "ValueSet_XGo_0 ?p0 = Some ([], Some html_ErrNotFound)"
    and 2: "util_XGo_0 [] ?p0 = Some ([], Some util_ErrNotFound)" by blast+
  from b v2 have 4: "util_XGo_0 [] ?p1 = Some ([], Some html_ErrNotFound)" by simp
  from c n1 have 5: "ValueSet_XGo_1 ?p2 = Some (''v'', Some html_ErrMultiEntities)"
    and 6: "util_XGo_1 [] ?p2 = Some (''v'', Some util_ErrMultiEntities)" by blast+
  from 1 2 v2 4 5 6 show ?thesis by (intro conjI)
qed

text \<open>
  C10, as stated, fails: on the empty sequence the two \<open>XGo_0\<close> return different error
  values, and on a sequence of two items so do the two \<open>XGo_1\<close>.
\<close>

theorem util_reducers_differ_counterexample:
  "util_XGo_0 [] \<lparr>Data = Some (from_list ([] :: string Value list)), Err = None\<rparr>
     \<noteq> ValueSet_XGo_0 \<lparr>Data = Some (from_list []), Err = None\<rparr>
   \<and> util_XGo_1 [] \<lparr>Data = Some (from_list [ex_v1, ex_v3]), Err = None\<rparr>
     \<noteq> ValueSet_XGo_1 \<lparr>Data = Some (from_list [ex_v1, ex_v3]), Err = None\<rparr>"
  by (simp add: ValueSet_XGo_0_def util_XGo_0_def ValueSet_XGo_1_def util_XGo_1_def invoke_top_def
      ValueSet_XGo_1_yield_def util_XGo_1_yield_def)

end
